theory Spec2Isabelle
  imports Main "HOL-Library.List_Lexorder" "HOL-Library.Char_ord" "HOL-Library.Monad_Syntax"
    "HOL-Library.Multiset"
begin

section \<open>JavaScript values of a request body\<close>

text \<open>
  The body of a request is what \<^verbatim>\<open>express.json()\<close> parsed. An object is kept as the list
  of its own properties in the order \<^verbatim>\<open>Object.entries\<close> enumerates them, each name once;
  a property that is absent (\<^verbatim>\<open>undefined\<close>) is \<open>None\<close>. Numbers are the integers, and
  the characters of a string are its code units.
\<close>

datatype json =
    JNull
  | JBool bool
  | JNum int
  | JStr string
  | JArr "json list"
  | JObj "(string \<times> json) list"

text \<open>JavaScript truthiness, as \<^verbatim>\<open>x || y\<close>, \<^verbatim>\<open>x ? a : b\<close> and \<^verbatim>\<open>x && y\<close> test it.\<close>

fun truthy :: "json \<Rightarrow> bool" where
  "truthy JNull = False"
| "truthy (JBool b) = b"
| "truthy (JNum n) = (n \<noteq> 0)"
| "truthy (JStr s) = (s \<noteq> [])"
| "truthy (JArr xs) = True"
| "truthy (JObj kvs) = True"

text \<open>\<^verbatim>\<open>typeof x === 'object'\<close> for a truthy value.\<close>

fun is_object :: "json \<Rightarrow> bool" where
  "is_object (JArr xs) = True"
| "is_object (JObj kvs) = True"
| "is_object v = False"

text \<open>
  Reading one of the properties the handlers read (\<^verbatim>\<open>title\<close>, \<^verbatim>\<open>category\<close>,
  \<^verbatim>\<open>totalSeconds\<close>, \<^verbatim>\<open>visits\<close>, \<^verbatim>\<open>firstVisit\<close>, \<^verbatim>\<open>lastVisit\<close>, \<^verbatim>\<open>state\<close>,
  \<^verbatim>\<open>timestamp\<close>, \<^verbatim>\<open>date\<close>) of a value that is not \<^verbatim>\<open>null\<close>: only an object can
  have them.
\<close>

fun get_prop :: "json \<Rightarrow> string \<Rightarrow> json option" where
  "get_prop (JObj kvs) k = map_of kvs k"
| "get_prop v k = None"

text \<open>Decimal digits of an array index, as the property names of an array are written.\<close>

definition digit_char :: "nat \<Rightarrow> char" where
  "digit_char d = char_of (48 + d)"

fun digits :: "nat \<Rightarrow> string" where
  "digits n = (if n < 10 then [digit_char n] else digits (n div 10) @ [digit_char (n mod 10)])"

declare digits.simps [simp del]

definition indexed :: "'a list \<Rightarrow> (string \<times> 'a) list" where
  "indexed xs = zip (map digits [0..<length xs]) xs"

text \<open>
  \<^verbatim>\<open>Object.entries(v)\<close>: the properties of an object, the indexed elements of an array,
  the indexed characters of a string, nothing for a number or a boolean; \<open>None\<close> is the
  \<^verbatim>\<open>TypeError\<close> raised for \<^verbatim>\<open>null\<close>.
\<close>

fun object_entries :: "json \<Rightarrow> (string \<times> json) list option" where
  "object_entries JNull = None"
| "object_entries (JBool b) = Some []"
| "object_entries (JNum n) = Some []"
| "object_entries (JStr s) = Some (indexed (map (\<lambda>c. JStr [c]) s))"
| "object_entries (JArr xs) = Some (indexed xs)"
| "object_entries (JObj kvs) = Some kvs"

section \<open>What the handlers take from outside the repository\<close>

text \<open>
  Five things are decided by the JavaScript runtime, the PostgreSQL driver and PostgreSQL,
  not by code of the repository. They are parameters of the model:
  \<^item> \<open>toISOString v\<close> is \<^verbatim>\<open>new Date(v).toISOString()\<close>, \<open>None\<close> when it raises
    \<^verbatim>\<open>RangeError\<close> (an invalid date);
  \<^item> \<open>pg_integer v\<close> is the value PostgreSQL stores in an \<^verbatim>\<open>INTEGER\<close> column for the
    bound parameter \<open>v\<close>, \<open>None\<close> when the statement is rejected;
  \<^item> \<open>pg_text v\<close> is the same for a \<^verbatim>\<open>TEXT\<close> column and a value \<open>v\<close> that is not a
    string;
  \<^item> \<open>base64_length b\<close> is \<^verbatim>\<open>Buffer.from(b, 'base64').length\<close>;
  \<^item> \<open>row_order n\<close> is the order in which PostgreSQL delivers \<open>n\<close> rows that a query
    leaves unordered, as a list of their positions.
\<close>

record env =
  toISOString :: "json \<Rightarrow> string option"
  pg_integer :: "json \<Rightarrow> int option"
  pg_text :: "json \<Rightarrow> string option"
  base64_length :: "string \<Rightarrow> nat"
  row_order :: "nat \<Rightarrow> nat list"

text \<open>
  A string bound to a \<^verbatim>\<open>TEXT\<close> parameter is taken as it is, unless it holds the
  character U+0000: PostgreSQL refuses such a parameter, and the statement raises.
\<close>

definition text_param :: "string \<Rightarrow> string option" where
  "text_param t = (if CHR 0x00 \<in> set t then None else Some t)"

definition bind_text :: "env \<Rightarrow> json \<Rightarrow> string option" where
  "bind_text e v = (case v of JStr t \<Rightarrow> text_param t | _ \<Rightarrow> pg_text e v)"

text \<open>
  The rows of a query in the order of delivery. The choice of the environment is used when
  it is a permutation of the positions.
\<close>

definition arranged :: "env \<Rightarrow> 'a list \<Rightarrow> 'a list" where
  "arranged e rows =
     (if sort (row_order e (length rows)) = [0..<length rows]
      then map (nth rows) (row_order e (length rows)) else rows)"

text \<open>
  The driver hands over a \<^verbatim>\<open>BIGINT\<close>, the type of \<^verbatim>\<open>SUM\<close> over an \<^verbatim>\<open>INTEGER\<close> column
  and of \<^verbatim>\<open>COUNT\<close>, as the string of its decimal digits.
\<close>

definition bigint_text :: "int \<Rightarrow> string" where
  "bigint_text n = (if n < 0 then CHR ''-'' # digits (nat (- n)) else digits (nat n))"

text \<open>
  \<^verbatim>\<open>parseInt(s)\<close> of a string: white space is skipped, then a sign, then the digits are
  read, hexadecimal ones after \<^verbatim>\<open>0x\<close>, as far as they go; \<open>None\<close> is \<^verbatim>\<open>NaN\<close>. White space
  is the one of ASCII, and numbers are exact.
\<close>

definition white_space :: "char \<Rightarrow> bool" where
  "white_space c \<longleftrightarrow> c \<in> {CHR 0x09, CHR 0x0A, CHR 0x0B, CHR 0x0C, CHR 0x0D, CHR 0x20}"

definition is_digit :: "char \<Rightarrow> bool" where
  "is_digit c \<longleftrightarrow> CHR ''0'' \<le> c \<and> c \<le> CHR ''9''"

definition is_hex_digit :: "char \<Rightarrow> bool" where
  "is_hex_digit c \<longleftrightarrow>
     is_digit c \<or> (CHR ''a'' \<le> c \<and> c \<le> CHR ''f'') \<or> (CHR ''A'' \<le> c \<and> c \<le> CHR ''F'')"

definition digit_value :: "char \<Rightarrow> nat" where
  "digit_value c =
     (if is_digit c then of_char c - 48
      else if CHR ''a'' \<le> c \<and> c \<le> CHR ''f'' then of_char c - 87
      else of_char c - 55)"

definition number_of :: "nat \<Rightarrow> string \<Rightarrow> nat" where
  "number_of radix ds = foldl (\<lambda>a c. radix * a + digit_value c) 0 ds"

definition parseInt :: "string \<Rightarrow> int option" where
  "parseInt s =
     (let t = dropWhile white_space s;
          u = (if take 1 t = ''-'' \<or> take 1 t = ''+'' then drop 1 t else t);
          hex = (take 2 u = ''0x'' \<or> take 2 u = ''0X'');
          ds = (if hex then takeWhile is_hex_digit (drop 2 u) else takeWhile is_digit u);
          n = number_of (if hex then 16 else 10) ds
      in if ds = [] then None
         else Some (if take 1 t = ''-'' then - int n else int n))"

section \<open>The tables of \<^verbatim>\<open>models/database.js\<close>\<close>

text \<open>
  A table is the list of its rows. \<^verbatim>\<open>TEXT\<close> columns are strings, compared in the
  lexicographic order of their characters (the order of PostgreSQL under the C collation);
  a nullable column is an \<open>option\<close>; \<^verbatim>\<open>TIMESTAMPTZ\<close> columns are natural numbers, and
  \<^verbatim>\<open>NOW()\<close> is the time \<open>now\<close> of the request. The counters \<^verbatim>\<open>total_seconds\<close> and
  \<^verbatim>\<open>visits\<close> are declared with a default and without \<^verbatim>\<open>NOT NULL\<close>, but the one statement
  that writes them always binds a number, so they are integers here; integers are
  unbounded. The \<^verbatim>\<open>SERIAL\<close> ids, which no handler reads, are left out.
\<close>

record device =
  dev_id :: string
  dev_user_id :: string
  dev_device_name :: string
  dev_device_type :: string
  dev_last_sync_at :: "nat option"

record usage_record =
  ur_user_id :: string
  ur_device_id :: string
  ur_domain :: string
  ur_title :: "string option"
  ur_category :: "string option"
  ur_date :: string
  ur_total_seconds :: int
  ur_visits :: int
  ur_first_visit :: "string option"
  ur_last_visit :: "string option"
  ur_synced_at :: nat

record activity_event =
  ae_user_id :: string
  ae_device_id :: string
  ae_state :: string
  ae_timestamp :: string
  ae_date :: string

record sync_log_entry =
  sl_user_id :: string
  sl_device_id :: string
  sl_sync_type :: string
  sl_records_synced :: int
  sl_synced_at :: nat

record screenshot =
  ss_id :: string
  ss_user_id :: string
  ss_device_id :: string
  ss_filename :: string
  ss_domain :: string
  ss_title :: string
  ss_url :: string
  ss_category :: string
  ss_timestamp :: string
  ss_date :: string
  ss_file_size :: int
  ss_created_at :: nat

record db =
  devices :: "device list"
  usage_records :: "usage_record list"
  activity_events :: "activity_event list"
  sync_log :: "sync_log_entry list"
  screenshots :: "screenshot list"

text \<open>
  The answers of the handlers that are not a success: the 400 and 404 answers they give by
  name, and the 500 answer of every \<^verbatim>\<open>catch\<close> block.
\<close>

datatype error =
    DeviceIdRequired
  | DeviceNotFound
  | NoFileUploaded
  | DataUrlRequired
  | InvalidDataUrl
  | InternalServerError

section \<open>\<^verbatim>\<open>POST /push\<close> (\<^verbatim>\<open>routes/sync.js\<close>)\<close>

subsection \<open>The upsert statement\<close>

text \<open>
  PostgreSQL's \<^verbatim>\<open>GREATEST\<close> and \<^verbatim>\<open>LEAST\<close> ignore \<^verbatim>\<open>NULL\<close> arguments and are \<^verbatim>\<open>NULL\<close>
  only when every argument is; \<^verbatim>\<open>COALESCE\<close> is its first argument that is not \<^verbatim>\<open>NULL\<close>.
\<close>

fun greatest :: "'a::linorder option \<Rightarrow> 'a option \<Rightarrow> 'a option" where
  "greatest None b = b"
| "greatest a None = a"
| "greatest (Some a) (Some b) = Some (max a b)"

fun least :: "'a::linorder option \<Rightarrow> 'a option \<Rightarrow> 'a option" where
  "least None b = b"
| "least a None = a"
| "least (Some a) (Some b) = Some (min a b)"

fun coalesce :: "'a option \<Rightarrow> 'a option \<Rightarrow> 'a option" where
  "coalesce None b = b"
| "coalesce (Some a) b = Some a"

text \<open>The ten values bound to the placeholders of the statement, in its order.\<close>

record usage_params =
  p_user_id :: string
  p_device_id :: string
  p_domain :: string
  p_title :: "string option"
  p_category :: "string option"
  p_date :: string
  p_total_seconds :: int
  p_visits :: int
  p_first_visit :: "string option"
  p_last_visit :: "string option"

text \<open>\<^verbatim>\<open>ON CONFLICT (user_id, device_id, domain, date)\<close>.\<close>

definition conflict :: "usage_params \<Rightarrow> usage_record \<Rightarrow> bool" where
  "conflict p r \<longleftrightarrow>
     ur_user_id r = p_user_id p \<and> ur_device_id r = p_device_id p \<and>
     ur_domain r = p_domain p \<and> ur_date r = p_date p"

text \<open>The row of \<^verbatim>\<open>INSERT ... VALUES\<close>; \<^verbatim>\<open>synced_at\<close> takes its default \<^verbatim>\<open>NOW()\<close>.\<close>

definition inserted :: "nat \<Rightarrow> usage_params \<Rightarrow> usage_record" where
  "inserted now p =
     \<lparr>ur_user_id = p_user_id p, ur_device_id = p_device_id p, ur_domain = p_domain p,
      ur_title = p_title p, ur_category = p_category p, ur_date = p_date p,
      ur_total_seconds = p_total_seconds p, ur_visits = p_visits p,
      ur_first_visit = p_first_visit p, ur_last_visit = p_last_visit p,
      ur_synced_at = now\<rparr>"

text \<open>The row of \<^verbatim>\<open>DO UPDATE SET\<close>: \<open>r\<close> is the stored row, \<open>p\<close> is \<^verbatim>\<open>EXCLUDED\<close>.\<close>

definition do_update :: "nat \<Rightarrow> usage_params \<Rightarrow> usage_record \<Rightarrow> usage_record" where
  "do_update now p r =
     r\<lparr>ur_total_seconds := max (ur_total_seconds r) (p_total_seconds p),
       ur_visits := max (ur_visits r) (p_visits p),
       ur_title := coalesce (p_title p) (ur_title r),
       ur_category := coalesce (p_category p) (ur_category r),
       ur_first_visit := least (ur_first_visit r) (p_first_visit p),
       ur_last_visit := greatest (ur_last_visit r) (p_last_visit p),
       ur_synced_at := now\<rparr>"

definition upsert_usage :: "nat \<Rightarrow> usage_params \<Rightarrow> usage_record list \<Rightarrow> usage_record list" where
  "upsert_usage now p T =
     (if \<exists>r \<in> set T. conflict p r
      then map (\<lambda>r. if conflict p r then do_update now p r else r) T
      else T @ [inserted now p])"

subsection \<open>The values the handler binds\<close>

text \<open>
  \<open>None\<close> is an exception raised before the row is written: \<^verbatim>\<open>TypeError\<close> for reading a
  property of \<^verbatim>\<open>null\<close>, \<^verbatim>\<open>RangeError\<close> from \<^verbatim>\<open>toISOString\<close>, or the statement
  rejected by PostgreSQL for one of its parameters. The user and the device of the
  statement are those of the row of \<^verbatim>\<open>devices\<close> found before, stored texts.
\<close>

definition text_or :: "env \<Rightarrow> json option \<Rightarrow> string \<Rightarrow> string option" where
  "text_or e v d = (case v of None \<Rightarrow> Some d | Some x \<Rightarrow> if truthy x then bind_text e x else Some d)"

definition integer_or_0 :: "env \<Rightarrow> json option \<Rightarrow> int option" where
  "integer_or_0 e v = (case v of None \<Rightarrow> Some 0 | Some x \<Rightarrow> if truthy x then pg_integer e x else Some 0)"

definition iso_or_null :: "env \<Rightarrow> json option \<Rightarrow> string option option" where
  "iso_or_null e v =
     (case v of None \<Rightarrow> Some None
      | Some x \<Rightarrow> if truthy x then map_option Some (toISOString e x) else Some None)"

definition entry_params ::
  "env \<Rightarrow> string \<Rightarrow> string \<Rightarrow> string \<Rightarrow> string \<Rightarrow> json \<Rightarrow> usage_params option" where
  "entry_params e uid deviceId date domain data =
     (if data = JNull \<or> text_param domain = None \<or> text_param date = None then None
      else do {
        title' \<leftarrow> text_or e (get_prop data ''title'') domain;
        category' \<leftarrow> text_or e (get_prop data ''category'') ''Other'';
        totalSeconds' \<leftarrow> integer_or_0 e (get_prop data ''totalSeconds'');
        visits' \<leftarrow> integer_or_0 e (get_prop data ''visits'');
        firstVisit' \<leftarrow> iso_or_null e (get_prop data ''firstVisit'');
        lastVisit' \<leftarrow> iso_or_null e (get_prop data ''lastVisit'');
        Some \<lparr>p_user_id = uid, p_device_id = deviceId, p_domain = domain,
              p_title = Some title', p_category = Some category', p_date = date,
              p_total_seconds = totalSeconds', p_visits = visits',
              p_first_visit = firstVisit', p_last_visit = lastVisit'\<rparr>
      })"

subsection \<open>The two loops over the report\<close>

text \<open>
  Each statement is committed on its own, so an exception leaves the rows written before it.
  A loop returns whether it ran to its end, the table and the counter \<^verbatim>\<open>usageCount\<close>.
\<close>

datatype completion = Done | Thrown

fun upsert_domains ::
  "env \<Rightarrow> nat \<Rightarrow> string \<Rightarrow> string \<Rightarrow> string \<Rightarrow> (string \<times> json) list \<Rightarrow>
   usage_record list \<Rightarrow> nat \<Rightarrow> completion \<times> usage_record list \<times> nat" where
  "upsert_domains e now uid deviceId date [] T n = (Done, T, n)"
| "upsert_domains e now uid deviceId date ((domain, data) # rest) T n =
     (case entry_params e uid deviceId date domain data of
        None \<Rightarrow> (Thrown, T, n)
      | Some p \<Rightarrow> upsert_domains e now uid deviceId date rest (upsert_usage now p T) (n + 1))"

fun upsert_dates ::
  "env \<Rightarrow> nat \<Rightarrow> string \<Rightarrow> string \<Rightarrow> (string \<times> json) list \<Rightarrow>
   usage_record list \<Rightarrow> nat \<Rightarrow> completion \<times> usage_record list \<times> nat" where
  "upsert_dates e now uid deviceId [] T n = (Done, T, n)"
| "upsert_dates e now uid deviceId ((date, domains) # rest) T n =
     (case object_entries domains of
        None \<Rightarrow> (Thrown, T, n)
      | Some es \<Rightarrow>
          (case upsert_domains e now uid deviceId date es T n of
             (Thrown, T', n') \<Rightarrow> (Thrown, T', n')
           | (Done, T', n') \<Rightarrow> upsert_dates e now uid deviceId rest T' n'))"

text \<open>\<^verbatim>\<open>if (usageData && typeof usageData === 'object')\<close>.\<close>

definition upsert_report ::
  "env \<Rightarrow> nat \<Rightarrow> string \<Rightarrow> string \<Rightarrow> json option \<Rightarrow>
   usage_record list \<Rightarrow> completion \<times> usage_record list \<times> nat" where
  "upsert_report e now uid deviceId usageData T =
     (case usageData of
        None \<Rightarrow> (Done, T, 0)
      | Some u \<Rightarrow>
          if truthy u \<and> is_object u
          then (case object_entries u of None \<Rightarrow> (Thrown, T, 0)
                | Some es \<Rightarrow> upsert_dates e now uid deviceId es T 0)
          else (Done, T, 0))"

subsection \<open>The activity events\<close>

text \<open>
  The three columns are \<^verbatim>\<open>TEXT NOT NULL\<close>: an absent or \<^verbatim>\<open>null\<close> property is rejected by
  PostgreSQL.
\<close>

definition text_not_null :: "env \<Rightarrow> json option \<Rightarrow> string option" where
  "text_not_null e v = (case v of None \<Rightarrow> None | Some x \<Rightarrow> if x = JNull then None else bind_text e x)"

definition event_row :: "env \<Rightarrow> string \<Rightarrow> string \<Rightarrow> json \<Rightarrow> activity_event option" where
  "event_row e uid deviceId ev =
     (if ev = JNull then None
      else do {
        state' \<leftarrow> text_not_null e (get_prop ev ''state'');
        timestamp' \<leftarrow> text_not_null e (get_prop ev ''timestamp'');
        date' \<leftarrow> text_not_null e (get_prop ev ''date'');
        Some \<lparr>ae_user_id = uid, ae_device_id = deviceId, ae_state = state',
              ae_timestamp = timestamp', ae_date = date'\<rparr>
      })"

fun insert_events ::
  "env \<Rightarrow> string \<Rightarrow> string \<Rightarrow> json list \<Rightarrow> activity_event list \<Rightarrow> nat \<Rightarrow>
   completion \<times> activity_event list \<times> nat" where
  "insert_events e uid deviceId [] A n = (Done, A, n)"
| "insert_events e uid deviceId (ev # rest) A n =
     (case event_row e uid deviceId ev of
        None \<Rightarrow> (Thrown, A, n)
      | Some row \<Rightarrow> insert_events e uid deviceId rest (A @ [row]) (n + 1))"

text \<open>\<^verbatim>\<open>xs.slice(-200)\<close>: the last 200 elements.\<close>

definition slice_last :: "nat \<Rightarrow> 'a list \<Rightarrow> 'a list" where
  "slice_last k xs = drop (length xs - k) xs"

definition insert_activity ::
  "env \<Rightarrow> string \<Rightarrow> string \<Rightarrow> json option \<Rightarrow> activity_event list \<Rightarrow>
   completion \<times> activity_event list \<times> nat" where
  "insert_activity e uid deviceId activityEvents A =
     (case activityEvents of
        Some (JArr evs) \<Rightarrow> insert_events e uid deviceId (slice_last 200 evs) A 0
      | _ \<Rightarrow> (Done, A, 0))"

subsection \<open>The handler\<close>

record push_body =
  deviceId :: "string option"
  usageData :: "json option"
  activityEvents :: "json option"

text \<open>The counts of the answer, \<^verbatim>\<open>synced: { usageRecords, activityEvents }\<close>.\<close>

record synced =
  usageRecords :: nat
  activityEventsSynced :: nat

definition find_device :: "string \<Rightarrow> string \<Rightarrow> device list \<Rightarrow> device option" where
  "find_device did uid ds = find (\<lambda>d. dev_id d = did \<and> dev_user_id d = uid) ds"

text \<open>
  \<^verbatim>\<open>SELECT * FROM devices WHERE id = ? AND user_id = ?\<close> and \<^verbatim>\<open>.get\<close>: the first row,
  if there is one; the outer \<open>None\<close> is the refusal of a parameter that holds U+0000. No
  stored text holds that character, so such a parameter finds no row, and the refusal is
  read where no row is found.
\<close>

definition select_device :: "string \<Rightarrow> string \<Rightarrow> device list \<Rightarrow> device option option" where
  "select_device did uid ds =
     (case find_device did uid ds of
        Some d \<Rightarrow> Some (Some d)
      | None \<Rightarrow> if text_param did = None \<or> text_param uid = None then None else Some None)"

definition touch_device :: "nat \<Rightarrow> string \<Rightarrow> device list \<Rightarrow> device list" where
  "touch_device now did ds =
     map (\<lambda>d. if dev_id d = did then d\<lparr>dev_last_sync_at := Some now\<rparr> else d) ds"

definition log_push :: "nat \<Rightarrow> string \<Rightarrow> string \<Rightarrow> nat \<Rightarrow> sync_log_entry" where
  "log_push now uid did usageCount =
     \<lparr>sl_user_id = uid, sl_device_id = did, sl_sync_type = ''push'',
      sl_records_synced = int usageCount, sl_synced_at = now\<rparr>"

text \<open>
  \<open>push e now uid body s\<close>: the request of the authenticated user \<open>uid\<close> at time \<open>now\<close> on
  the database \<open>s\<close>; the answer, and the database it leaves. The device id of the body is a
  string, as the client got it at registration. \<open>push_device\<close> is the handler from the
  point where the device has been found.
\<close>

definition push_device ::
  "env \<Rightarrow> nat \<Rightarrow> string \<Rightarrow> string \<Rightarrow> push_body \<Rightarrow> db \<Rightarrow> (error + synced) \<times> db" where
  "push_device e now uid did body s =
     (case upsert_report e now uid did (usageData body) (usage_records s) of
        (Thrown, T, usageCount) \<Rightarrow> (Inl InternalServerError, s\<lparr>usage_records := T\<rparr>)
      | (Done, T, usageCount) \<Rightarrow>
          (case insert_activity e uid did (activityEvents body) (activity_events s) of
             (Thrown, A, eventCount) \<Rightarrow>
               (Inl InternalServerError, s\<lparr>usage_records := T, activity_events := A\<rparr>)
           | (Done, A, eventCount) \<Rightarrow>
               (Inr \<lparr>usageRecords = usageCount, activityEventsSynced = eventCount\<rparr>,
                s\<lparr>usage_records := T, activity_events := A,
                  devices := touch_device now did (devices s),
                  sync_log := sync_log s @ [log_push now uid did usageCount]\<rparr>)))"

definition push :: "env \<Rightarrow> nat \<Rightarrow> string \<Rightarrow> push_body \<Rightarrow> db \<Rightarrow> (error + synced) \<times> db" where
  "push e now uid body s =
     (case deviceId body of
        None \<Rightarrow> (Inl DeviceIdRequired, s)
      | Some did \<Rightarrow>
          (if did = [] then (Inl DeviceIdRequired, s)
           else (case select_device did uid (devices s) of
                   None \<Rightarrow> (Inl InternalServerError, s)
                 | Some None \<Rightarrow> (Inl DeviceNotFound, s)
                 | Some (Some device) \<Rightarrow> push_device e now uid did body s)))"

section \<open>\<^verbatim>\<open>GET /daily\<close> and \<^verbatim>\<open>GET /top-domains\<close> (\<^verbatim>\<open>routes/analytics.js\<close>)\<close>

subsection \<open>The SQL the queries are made of\<close>

text \<open>
  \<^verbatim>\<open>SUM\<close> over the selected rows is \<^verbatim>\<open>NULL\<close> when no row is selected. Within a group
  of \<^verbatim>\<open>GROUP BY\<close> there is always a row, and the counters of a usage record are never
  \<^verbatim>\<open>NULL\<close>, so the sum of a group is a number. \<^verbatim>\<open>COUNT(DISTINCT x)\<close> counts the
  different values. \<^verbatim>\<open>ORDER BY x DESC\<close> sorts the rows as delivered by the value
  descending, so that rows of equal value come in the order PostgreSQL chose.
\<close>

definition sql_sum :: "int list \<Rightarrow> int option" where
  "sql_sum xs = (if xs = [] then None else Some (sum_list xs))"

definition count_distinct :: "'a list \<Rightarrow> nat" where
  "count_distinct xs = length (remdups xs)"

definition group_by :: "('r \<Rightarrow> 'k) \<Rightarrow> 'r list \<Rightarrow> ('k \<times> 'r list) list" where
  "group_by f rows = map (\<lambda>k. (k, filter (\<lambda>r. f r = k) rows)) (remdups (map f rows))"

definition order_by_desc :: "env \<Rightarrow> ('a \<Rightarrow> int) \<Rightarrow> 'a list \<Rightarrow> 'a list" where
  "order_by_desc e f rows = sort_key (\<lambda>r. - f r) (arranged e rows)"

text \<open>The sums of a group of usage records.\<close>

definition seconds_of :: "usage_record list \<Rightarrow> int" where
  "seconds_of g = sum_list (map ur_total_seconds g)"

definition visits_of :: "usage_record list \<Rightarrow> int" where
  "visits_of g = sum_list (map ur_visits g)"

text \<open>\<^verbatim>\<open>x || d\<close> for a number \<open>x\<close>, where \<open>None\<close> is \<^verbatim>\<open>NaN\<close>.\<close>

definition or_default :: "int option \<Rightarrow> int \<Rightarrow> int" where
  "or_default v d = (case v of None \<Rightarrow> d | Some n \<Rightarrow> if n = 0 then d else n)"

text \<open>
  \<^verbatim>\<open>new Date(ms).toISOString().slice(0, 10)\<close>; \<open>None\<close> when \<^verbatim>\<open>toISOString\<close> raises.
\<close>

definition iso_day :: "env \<Rightarrow> int \<Rightarrow> string option" where
  "iso_day e ms = map_option (take 10) (toISOString e (JNum ms))"

subsection \<open>\<^verbatim>\<open>GET /daily\<close>\<close>

text \<open>
  The rows of \<^verbatim>\<open>sites\<close>, \<^verbatim>\<open>categories\<close> and \<^verbatim>\<open>deviceBreakdown\<close> are sent as the driver
  returned them: their sums and counts are strings. The handler applies \<^verbatim>\<open>parseInt\<close> to
  the row of totals and to the count of screenshots only.
\<close>

record site_row =
  sr_domain :: string
  sr_title :: "string option"
  sr_category :: "string option"
  sr_total_seconds :: string
  sr_visits :: string

record category_row =
  cr_category :: "string option"
  cr_total_seconds :: string
  cr_total_visits :: string
  cr_sites :: string

record device_row =
  dr_device_name :: string
  dr_device_type :: string
  dr_total_seconds :: string
  dr_total_visits :: string
  dr_domains :: string

record daily_totals =
  totalSeconds :: int
  totalVisits :: int
  totalDomains :: int

record daily_response =
  d_date :: string
  d_sites :: "site_row list"
  d_totals :: daily_totals
  d_categories :: "category_row list"
  d_deviceBreakdown :: "device_row list"
  d_screenshotCount :: int

text \<open>\<^verbatim>\<open>FROM usage_records WHERE user_id = ? AND date = ?\<close>.\<close>

definition records_on :: "string \<Rightarrow> string \<Rightarrow> usage_record list \<Rightarrow> usage_record list" where
  "records_on uid day T = filter (\<lambda>r. ur_user_id r = uid \<and> ur_date r = day) T"

definition site_of :: "(string \<times> string option \<times> string option) \<times> usage_record list \<Rightarrow> site_row" where
  "site_of g =
     \<lparr>sr_domain = fst (fst g), sr_title = fst (snd (fst g)), sr_category = snd (snd (fst g)),
      sr_total_seconds = bigint_text (seconds_of (snd g)),
      sr_visits = bigint_text (visits_of (snd g))\<rparr>"

definition daily_sites :: "env \<Rightarrow> usage_record list \<Rightarrow> site_row list" where
  "daily_sites e rows =
     map site_of
       (order_by_desc e (\<lambda>g. seconds_of (snd g))
          (group_by (\<lambda>r. (ur_domain r, ur_title r, ur_category r)) rows))"

text \<open>
  The row of totals, \<^verbatim>\<open>COALESCE(SUM(..), 0)\<close> and \<^verbatim>\<open>COUNT(DISTINCT domain)\<close>, and what the
  handler makes of it: \<^verbatim>\<open>parseInt(..) || 0\<close>.
\<close>

definition coalesce_0 :: "int option \<Rightarrow> int" where
  "coalesce_0 v = (case v of None \<Rightarrow> 0 | Some n \<Rightarrow> n)"

definition daily_totals_of :: "usage_record list \<Rightarrow> daily_totals" where
  "daily_totals_of rows =
     \<lparr>totalSeconds =
        or_default (parseInt (bigint_text (coalesce_0 (sql_sum (map ur_total_seconds rows))))) 0,
      totalVisits =
        or_default (parseInt (bigint_text (coalesce_0 (sql_sum (map ur_visits rows))))) 0,
      totalDomains =
        or_default (parseInt (bigint_text (int (count_distinct (map ur_domain rows))))) 0\<rparr>"

definition category_of :: "string option \<times> usage_record list \<Rightarrow> category_row" where
  "category_of g =
     \<lparr>cr_category = fst g,
      cr_total_seconds = bigint_text (seconds_of (snd g)),
      cr_total_visits = bigint_text (visits_of (snd g)),
      cr_sites = bigint_text (int (count_distinct (map ur_domain (snd g))))\<rparr>"

definition daily_categories :: "env \<Rightarrow> usage_record list \<Rightarrow> category_row list" where
  "daily_categories e rows =
     map category_of (order_by_desc e (\<lambda>g. seconds_of (snd g)) (group_by ur_category rows))"

text \<open>
  \<^verbatim>\<open>FROM usage_records ur JOIN devices d ON ur.device_id = d.id\<close>, grouped by the name and
  the type of the device, in no order.
\<close>

definition join_devices :: "usage_record list \<Rightarrow> device list \<Rightarrow> (usage_record \<times> device) list" where
  "join_devices rows ds =
     concat (map (\<lambda>r. map (\<lambda>d. (r, d)) (filter (\<lambda>d. ur_device_id r = dev_id d) ds)) rows)"

definition device_of :: "(string \<times> string) \<times> (usage_record \<times> device) list \<Rightarrow> device_row" where
  "device_of g =
     \<lparr>dr_device_name = fst (fst g), dr_device_type = snd (fst g),
      dr_total_seconds = bigint_text (seconds_of (map fst (snd g))),
      dr_total_visits = bigint_text (visits_of (map fst (snd g))),
      dr_domains = bigint_text (int (count_distinct (map (ur_domain \<circ> fst) (snd g))))\<rparr>"

definition daily_devices :: "env \<Rightarrow> usage_record list \<Rightarrow> device list \<Rightarrow> device_row list" where
  "daily_devices e rows ds =
     map device_of
       (arranged e
          (group_by (\<lambda>j. (dev_device_name (snd j), dev_device_type (snd j))) (join_devices rows ds)))"

text \<open>\<^verbatim>\<open>SELECT COUNT(*) as count FROM screenshots WHERE user_id = ? AND date = ?\<close>.\<close>

definition screenshots_on :: "string \<Rightarrow> string \<Rightarrow> screenshot list \<Rightarrow> screenshot list" where
  "screenshots_on uid day S = filter (\<lambda>x. ss_user_id x = uid \<and> ss_date x = day) S"

text \<open>
  \<open>daily e now_ms uid q s\<close>: \<open>q\<close> is \<^verbatim>\<open>req.query.date\<close>, \<open>now_ms\<close> the clock
  (\<^verbatim>\<open>new Date()\<close>). Every query binds the user and the date: an exception is the one
  \<^verbatim>\<open>toISOString\<close> may raise, or the refusal of one of the two parameters.
\<close>

definition daily :: "env \<Rightarrow> int \<Rightarrow> string \<Rightarrow> string option \<Rightarrow> db \<Rightarrow> error + daily_response" where
  "daily e now_ms uid q s =
     (case (case q of None \<Rightarrow> iso_day e now_ms
            | Some d \<Rightarrow> if d = [] then iso_day e now_ms else Some d) of
        None \<Rightarrow> Inl InternalServerError
      | Some day \<Rightarrow>
          if text_param uid = None \<or> text_param day = None then Inl InternalServerError
          else
            Inr \<lparr>d_date = day,
                 d_sites = daily_sites e (records_on uid day (usage_records s)),
                 d_totals = daily_totals_of (records_on uid day (usage_records s)),
                 d_categories = daily_categories e (records_on uid day (usage_records s)),
                 d_deviceBreakdown =
                   daily_devices e (records_on uid day (usage_records s)) (devices s),
                 d_screenshotCount =
                   or_default (parseInt (bigint_text
                     (int (length (screenshots_on uid day (screenshots s)))))) 0\<rparr>)"

subsection \<open>\<^verbatim>\<open>GET /top-domains\<close>\<close>

text \<open>The rows are sent as the driver returned them, sums and counts as strings.\<close>

record domain_row =
  td_domain :: string
  td_title :: "string option"
  td_category :: "string option"
  td_total_seconds :: string
  td_total_visits :: string
  td_active_days :: string

record top_domains_response =
  t_domains :: "domain_row list"
  t_period :: int

text \<open>\<^verbatim>\<open>FROM usage_records WHERE user_id = ? AND date >= ?\<close>.\<close>

definition records_since :: "string \<Rightarrow> string \<Rightarrow> usage_record list \<Rightarrow> usage_record list" where
  "records_since uid since T = filter (\<lambda>r. ur_user_id r = uid \<and> since \<le> ur_date r) T"

definition domain_of :: "(string \<times> string option \<times> string option) \<times> usage_record list \<Rightarrow> domain_row" where
  "domain_of g =
     \<lparr>td_domain = fst (fst g), td_title = fst (snd (fst g)), td_category = snd (snd (fst g)),
      td_total_seconds = bigint_text (seconds_of (snd g)),
      td_total_visits = bigint_text (visits_of (snd g)),
      td_active_days = bigint_text (int (count_distinct (map ur_date (snd g))))\<rparr>"

text \<open>\<^verbatim>\<open>GROUP BY domain, title, category ORDER BY total_seconds DESC LIMIT ?\<close>.\<close>

definition ranked_groups ::
  "env \<Rightarrow> usage_record list \<Rightarrow> ((string \<times> string option \<times> string option) \<times> usage_record list) list" where
  "ranked_groups e rows =
     order_by_desc e (\<lambda>g. seconds_of (snd g))
       (group_by (\<lambda>r. (ur_domain r, ur_title r, ur_category r)) rows)"

text \<open>
  \<open>period\<close> and \<open>limit\<close> are \<^verbatim>\<open>parseInt(req.query.period)\<close> and
  \<^verbatim>\<open>parseInt(req.query.limit)\<close>. PostgreSQL rejects a negative \<^verbatim>\<open>LIMIT\<close>, and a parameter
  that holds U+0000.
\<close>

definition top_domains ::
  "env \<Rightarrow> int \<Rightarrow> string \<Rightarrow> int option \<Rightarrow> int option \<Rightarrow> db \<Rightarrow> error + top_domains_response" where
  "top_domains e now_ms uid period limit s =
     (let days = min (or_default period 7) 90;
          lim = min (or_default limit 20) 100
      in case iso_day e (now_ms - days * 86400000) of
           None \<Rightarrow> Inl InternalServerError
         | Some since \<Rightarrow>
             if text_param uid = None \<or> text_param since = None \<or> lim < 0
             then Inl InternalServerError
             else Inr \<lparr>t_domains =
                         map domain_of
                           (take (nat lim)
                              (ranked_groups e (records_since uid since (usage_records s)))),
                       t_period = days\<rparr>)"

section \<open>\<^verbatim>\<open>POST /upload\<close> and \<^verbatim>\<open>POST /upload-base64\<close> (\<^verbatim>\<open>routes/screenshots.js\<close>)\<close>

text \<open>
  The files are the pairs of a user's directory and a file name in it. The fields of a
  body are strings. The authenticated user is a row of \<^verbatim>\<open>users\<close>, a table the model
  does not hold.
\<close>

record store =
  tables :: db
  disk :: "(string \<times> string) set"

record upload_body =
  ub_deviceId :: "string option"
  ub_dataUrl :: "string option"
  ub_domain :: "string option"
  ub_title :: "string option"
  ub_url :: "string option"
  ub_category :: "string option"
  ub_timestamp :: "string option"
  ub_date :: "string option"

record uploaded =
  up_id :: string
  up_filename :: string

text \<open>\<^verbatim>\<open>x || d\<close> for a string \<open>x\<close> that may be absent.\<close>

definition str_or :: "string option \<Rightarrow> string \<Rightarrow> string" where
  "str_or x d = (case x of None \<Rightarrow> d | Some v \<Rightarrow> if v = [] then d else v)"

definition str_or_else :: "string option \<Rightarrow> string option \<Rightarrow> string option" where
  "str_or_else x d = (case x of None \<Rightarrow> d | Some v \<Rightarrow> if v = [] then d else Some v)"

text \<open>
  The \<^verbatim>\<open>INSERT INTO screenshots\<close> of both handlers. \<open>None\<close> is an exception: from
  \<^verbatim>\<open>toISOString\<close>, or from PostgreSQL for a text parameter it refuses, an \<^verbatim>\<open>id\<close>
  already there (\<^verbatim>\<open>PRIMARY KEY\<close>) or a \<^verbatim>\<open>device_id\<close> that is no device
  (\<^verbatim>\<open>REFERENCES devices(id)\<close>).
\<close>

definition insert_screenshot ::
  "env \<Rightarrow> nat \<Rightarrow> int \<Rightarrow> string \<Rightarrow> string \<Rightarrow> string \<Rightarrow> int \<Rightarrow> upload_body \<Rightarrow> db \<Rightarrow> db option" where
  "insert_screenshot e now now_ms new_id uid filename size' body t =
     do {
       timestamp' \<leftarrow> str_or_else (ub_timestamp body) (toISOString e (JNum now_ms));
       date' \<leftarrow> str_or_else (ub_date body) (iso_day e now_ms);
       if (\<exists>p \<in> set [new_id, uid, str_or (ub_deviceId body) ''unknown'', filename,
                        str_or (ub_domain body) ''unknown'', str_or (ub_title body) [],
                        str_or (ub_url body) [], str_or (ub_category body) ''Other'',
                        timestamp', date']. text_param p = None) \<or>
          (\<exists>x \<in> set (screenshots t). ss_id x = new_id) \<or>
          \<not> (\<exists>d \<in> set (devices t). dev_id d = str_or (ub_deviceId body) ''unknown'')
       then None
       else Some (t\<lparr>screenshots := screenshots t @
              [\<lparr>ss_id = new_id, ss_user_id = uid,
                ss_device_id = str_or (ub_deviceId body) ''unknown'',
                ss_filename = filename,
                ss_domain = str_or (ub_domain body) ''unknown'',
                ss_title = str_or (ub_title body) [],
                ss_url = str_or (ub_url body) [],
                ss_category = str_or (ub_category body) ''Other'',
                ss_timestamp = timestamp', ss_date = date',
                ss_file_size = size', ss_created_at = now\<rparr>]\<rparr>)
     }"

subsection \<open>\<^verbatim>\<open>POST /upload\<close>\<close>

text \<open>
  \<open>file\<close> is \<^verbatim>\<open>req.file\<close>, its name and size: \<^verbatim>\<open>multer\<close> has written it into the
  user's directory before the handler runs. \<open>new_id\<close> is the \<^verbatim>\<open>uuidv4()\<close> of the request.
\<close>

definition upload ::
  "env \<Rightarrow> nat \<Rightarrow> int \<Rightarrow> string \<Rightarrow> string \<Rightarrow> (string \<times> int) option \<Rightarrow> upload_body \<Rightarrow> store \<Rightarrow>
   (error + uploaded) \<times> store" where
  "upload e now now_ms new_id uid file body st =
     (case file of
        None \<Rightarrow> (Inl NoFileUploaded, st)
      | Some f \<Rightarrow>
          (case insert_screenshot e now now_ms new_id uid (fst f) (snd f) body (tables st) of
             None \<Rightarrow> (Inl InternalServerError, st\<lparr>disk := insert (uid, fst f) (disk st)\<rparr>)
           | Some t \<Rightarrow>
               (Inr \<lparr>up_id = new_id, up_filename = fst f\<rparr>,
                \<lparr>tables = t, disk = insert (uid, fst f) (disk st)\<rparr>)))"

subsection \<open>\<^verbatim>\<open>POST /upload-base64\<close>\<close>

text \<open>
  \<^verbatim>\<open>dataUrl.match(/^data:image\/(\w+);base64,(.+)$/)\<close>: the two groups. The dot matches
  no line terminator.
\<close>

definition word_char :: "char \<Rightarrow> bool" where
  "word_char c \<longleftrightarrow>
     (CHR ''a'' \<le> c \<and> c \<le> CHR ''z'') \<or> (CHR ''A'' \<le> c \<and> c \<le> CHR ''Z'') \<or>
     (CHR ''0'' \<le> c \<and> c \<le> CHR ''9'') \<or> c = CHR ''_''"

definition match_data_url :: "string \<Rightarrow> (string \<times> string) option" where
  "match_data_url u =
     (let rest = drop 11 u;
          ext = takeWhile word_char rest;
          tail = dropWhile word_char rest;
          payload = drop 8 tail
      in if take 11 u = ''data:image/'' \<and> ext \<noteq> [] \<and> take 8 tail = '';base64,'' \<and>
            payload \<noteq> [] \<and> (\<forall>c \<in> set payload. c \<noteq> CHR 0x0A \<and> c \<noteq> CHR 0x0D)
         then Some (ext, payload) else None)"

text \<open>
  The limit: \<^verbatim>\<open>parseInt(count.c) > 200\<close> for the count the driver returned, then
  \<^verbatim>\<open>SELECT id, filename ... ORDER BY created_at ASC LIMIT ?\<close>, then for each row the file,
  if it is there, and the row.
\<close>

definition delete_screenshot :: "string \<Rightarrow> store \<Rightarrow> screenshot \<Rightarrow> store" where
  "delete_screenshot uid st x =
     \<lparr>tables = (tables st)\<lparr>screenshots := filter (\<lambda>y. ss_id y \<noteq> ss_id x) (screenshots (tables st))\<rparr>,
      disk = disk st - {(uid, ss_filename x)}\<rparr>"

definition oldest :: "env \<Rightarrow> string \<Rightarrow> nat \<Rightarrow> screenshot list \<Rightarrow> screenshot list" where
  "oldest e uid k S =
     take k (sort_key ss_created_at (arranged e (filter (\<lambda>x. ss_user_id x = uid) S)))"

definition enforce_limit :: "env \<Rightarrow> string \<Rightarrow> store \<Rightarrow> store" where
  "enforce_limit e uid st =
     (case parseInt (bigint_text
             (int (length (filter (\<lambda>x. ss_user_id x = uid) (screenshots (tables st)))))) of
        None \<Rightarrow> st
      | Some c \<Rightarrow>
          if c > 200
          then foldl (delete_screenshot uid) st
                 (oldest e uid (nat (c - 200)) (screenshots (tables st)))
          else st)"

text \<open>
  \<open>name_uuid\<close> and \<open>new_id\<close> are the two \<^verbatim>\<open>uuidv4()\<close> of the request; the file name is
  \<^verbatim>\<open>`${Date.now()}-${uuidv4().slice(0,8)}.${ext}`\<close>.
\<close>

definition upload_base64 ::
  "env \<Rightarrow> nat \<Rightarrow> int \<Rightarrow> string \<Rightarrow> string \<Rightarrow> string \<Rightarrow> upload_body \<Rightarrow> store \<Rightarrow>
   (error + uploaded) \<times> store" where
  "upload_base64 e now now_ms name_uuid new_id uid body st =
     (case str_or_else (ub_dataUrl body) None of
        None \<Rightarrow> (Inl DataUrlRequired, st)
      | Some u \<Rightarrow>
          (case match_data_url u of
             None \<Rightarrow> (Inl InvalidDataUrl, st)
           | Some m \<Rightarrow>
               (let ext = (if fst m = ''jpeg'' then ''jpg'' else fst m);
                    filename = digits (nat now_ms) @ ''-'' @ take 8 name_uuid @ ''.'' @ ext;
                    written = insert (uid, filename) (disk st)
                in case insert_screenshot e now now_ms new_id uid filename
                          (int (base64_length e (snd m))) body (tables st) of
                     None \<Rightarrow> (Inl InternalServerError, st\<lparr>disk := written\<rparr>)
                   | Some t \<Rightarrow>
                       (Inr \<lparr>up_id = new_id, up_filename = filename\<rparr>,
                        enforce_limit e uid \<lparr>tables = t, disk = written\<rparr>))))"

section \<open>Notions for stating and proving the properties\<close>

subsection \<open>Reading the tables and the report\<close>

text \<open>The stored row of a merge key, if there is one.\<close>

definition usage_row :: "string \<Rightarrow> string \<Rightarrow> string \<Rightarrow> string \<Rightarrow> usage_record list \<Rightarrow> usage_record option" where
  "usage_row uid did domain date T =
     find (\<lambda>r. ur_user_id r = uid \<and> ur_device_id r = did \<and> ur_domain r = domain \<and> ur_date r = date) T"

text \<open>
  The entries \<open>(date, domain, data)\<close> of a report, in the order the two loops visit them.
\<close>

definition date_entries :: "string \<times> json \<Rightarrow> (string \<times> string \<times> json) list" where
  "date_entries dd =
     (case object_entries (snd dd) of None \<Rightarrow> []
      | Some es \<Rightarrow> map (\<lambda>(domain, data). (fst dd, domain, data)) es)"

definition report_entries :: "json \<Rightarrow> (string \<times> string \<times> json) list" where
  "report_entries u = (case object_entries u of None \<Rightarrow> [] | Some ds \<Rightarrow> concat (map date_entries ds))"

text \<open>The fields of a usage record that the merge rules for counters and visit times govern.\<close>

definition usage_state ::
  "usage_record \<Rightarrow> (string \<times> string \<times> string \<times> string) \<times> int \<times> int \<times> string option \<times> string option" where
  "usage_state r =
     ((ur_user_id r, ur_device_id r, ur_domain r, ur_date r),
      ur_total_seconds r, ur_visits r, ur_first_visit r, ur_last_visit r)"

text \<open>A sequence of push requests, each with its time and its user, run one after the other.\<close>

fun push_seq :: "env \<Rightarrow> (nat \<times> string \<times> push_body) list \<Rightarrow> db \<Rightarrow> db" where
  "push_seq e [] s = s"
| "push_seq e ((now, uid, body) # rest) s = push_seq e rest (snd (push e now uid body s))"

text \<open>
  The total seconds of a domain over a period as the specification words the ranking of
  \<^verbatim>\<open>TopDomains\<close>: summed over every record of the user and the domain dated within the
  period, whatever its title and category.
\<close>

definition domain_seconds_in_period :: "string \<Rightarrow> string \<Rightarrow> string \<Rightarrow> usage_record list \<Rightarrow> int" where
  "domain_seconds_in_period uid since domain T =
     sum_list (map ur_total_seconds
       (filter (\<lambda>r. ur_user_id r = uid \<and> since \<le> ur_date r \<and> ur_domain r = domain) T))"

subsection \<open>The loops as one pass over a list of steps\<close>

text \<open>
  A step is the parameter record of one statement, or \<open>None\<close> where the handler raises
  instead. \<open>upsert_all\<close> runs the steps up to the first exception; \<open>applied\<close> is the
  list of statements that ran.
\<close>

fun upsert_all :: "nat \<Rightarrow> usage_params option list \<Rightarrow> usage_record list \<Rightarrow> nat \<Rightarrow> completion \<times> usage_record list \<times> nat" where
  "upsert_all now [] T n = (Done, T, n)"
| "upsert_all now (None # rest) T n = (Thrown, T, n)"
| "upsert_all now (Some p # rest) T n = upsert_all now rest (upsert_usage now p T) (n + 1)"

definition date_steps :: "env \<Rightarrow> string \<Rightarrow> string \<Rightarrow> string \<times> json \<Rightarrow> usage_params option list" where
  "date_steps e uid did dd =
     (case object_entries (snd dd) of None \<Rightarrow> [None]
      | Some es \<Rightarrow> map (\<lambda>(domain, data). entry_params e uid did (fst dd) domain data) es)"

definition report_steps :: "env \<Rightarrow> string \<Rightarrow> string \<Rightarrow> json option \<Rightarrow> usage_params option list" where
  "report_steps e uid did ud =
     (case ud of None \<Rightarrow> []
      | Some u \<Rightarrow>
          if truthy u \<and> is_object u
          then (case object_entries u of None \<Rightarrow> [None]
                | Some ds \<Rightarrow> concat (map (date_steps e uid did) ds))
          else [])"

definition applied :: "usage_params option list \<Rightarrow> usage_params list" where
  "applied xs = map the (takeWhile (\<lambda>x. x \<noteq> None) xs)"

definition p_key :: "usage_params \<Rightarrow> string \<times> string \<times> string \<times> string" where
  "p_key p = (p_user_id p, p_device_id p, p_domain p, p_date p)"

text \<open>
  A statement is absorbed by a table when its key is stored and every row of that key
  already dominates it: running it changes no counter and no visit time.
\<close>

definition absorbed :: "usage_params \<Rightarrow> usage_record list \<Rightarrow> bool" where
  "absorbed p T \<longleftrightarrow>
     (\<exists>r \<in> set T. conflict p r) \<and>
     (\<forall>r \<in> set T. conflict p r \<longrightarrow>
        p_total_seconds p \<le> ur_total_seconds r \<and> p_visits p \<le> ur_visits r \<and>
        least (ur_first_visit r) (p_first_visit p) = ur_first_visit r \<and>
        greatest (ur_last_visit r) (p_last_visit p) = ur_last_visit r)"

section \<open>Concrete inputs\<close>

subsection \<open>An environment\<close>

text \<open>
  \<open>iso_of_ms\<close> writes a time value (milliseconds since the epoch) as
  \<^verbatim>\<open>Date.prototype.toISOString\<close> does: the proleptic Gregorian date in UTC, four digits
  of year, or a sign and six digits outside the years 0 to 9999, and \<^verbatim>\<open>RangeError\<close>
  beyond 8.64e15 milliseconds.
\<close>

definition pad :: "nat \<Rightarrow> nat \<Rightarrow> string" where
  "pad w n = replicate (w - length (digits n)) CHR ''0'' @ digits n"

definition civil_from_days :: "int \<Rightarrow> int \<times> int \<times> int" where
  "civil_from_days z0 =
     (let z = z0 + 719468;
          era = z div 146097;
          doe = z mod 146097;
          yoe = (doe - doe div 1460 + doe div 36524 - doe div 146096) div 365;
          doy = doe - (365 * yoe + yoe div 4 - yoe div 100);
          mp = (5 * doy + 2) div 153;
          d = doy - (153 * mp + 2) div 5 + 1;
          m = (if mp < 10 then mp + 3 else mp - 9);
          y = yoe + era * 400 + (if m \<le> 2 then 1 else 0)
      in (y, m, d))"

definition iso_of_ms :: "int \<Rightarrow> string option" where
  "iso_of_ms ms =
     (if ms < - 8640000000000000 \<or> 8640000000000000 < ms then None
      else case civil_from_days (ms div 86400000) of (y, m, d) \<Rightarrow>
        let t = ms mod 86400000;
            year = (if 0 \<le> y \<and> y \<le> 9999 then pad 4 (nat y)
                    else (if y < 0 then ''-'' else ''+'') @ pad 6 (nat \<bar>y\<bar>))
        in Some (year @ ''-'' @ pad 2 (nat m) @ ''-'' @ pad 2 (nat d) @ ''T'' @
                 pad 2 (nat (t div 3600000)) @ '':'' @ pad 2 (nat (t div 60000 mod 60)) @ '':'' @
                 pad 2 (nat (t div 1000 mod 60)) @ ''.'' @ pad 3 (nat (t mod 1000)) @ ''Z''))"

text \<open>
  \<open>example_env\<close> agrees with the runtime and the driver on the values the examples
  bind: a number given to \<^verbatim>\<open>new Date\<close> is a time value, an integer of 32 bits is stored
  in an \<^verbatim>\<open>INTEGER\<close> column as it is, and an unpadded base64 text of \<open>n\<close> characters
  decodes to \<open>3 * n div 4\<close> bytes. It delivers the rows of a query in the order of the
  table.
\<close>

definition example_env :: env where
  "example_env =
     \<lparr>toISOString = (\<lambda>v. case v of JNum ms \<Rightarrow> iso_of_ms ms | _ \<Rightarrow> None),
      pg_integer = (\<lambda>v. case v of JNum n \<Rightarrow> if - 2147483648 \<le> n \<and> n \<le> 2147483647 then Some n else None
                          | _ \<Rightarrow> None),
      pg_text = (\<lambda>v. case v of JStr t \<Rightarrow> Some t | _ \<Rightarrow> None),
      base64_length = (\<lambda>b. length b * 3 div 4),
      row_order = (\<lambda>n. [0..<n])\<rparr>"

subsection \<open>A user with one device\<close>

definition laptop :: device where
  "laptop = \<lparr>dev_id = ''dev-1'', dev_user_id = ''user-1'', dev_device_name = ''laptop'',
             dev_device_type = ''chrome'', dev_last_sync_at = None\<rparr>"

definition fresh_db :: db where
  "fresh_db = \<lparr>devices = [laptop], usage_records = [], activity_events = [], sync_log = [],
               screenshots = []\<rparr>"

text \<open>
  The report of the specification's example,
  \<^verbatim>\<open>{"2024-01-01": {"example.com": {totalSeconds: .., visits: ..}}}\<close>, and a push of it
  from the device.
\<close>

definition stats :: "int \<Rightarrow> int \<Rightarrow> json" where
  "stats secs visits = JObj [(''totalSeconds'', JNum secs), (''visits'', JNum visits)]"

definition report :: "json \<Rightarrow> json" where
  "report data = JObj [(''2024-01-01'', JObj [(''example.com'', data)])]"

definition push_of :: "json option \<Rightarrow> push_body" where
  "push_of u = \<lparr>deviceId = Some ''dev-1'', usageData = u, activityEvents = None\<rparr>"

definition pushed_once :: db where
  "pushed_once = snd (push example_env 1000 ''user-1'' (push_of (Some (report (stats 100 2)))) fresh_db)"

text \<open>
  Usage stats with visit times, given as time values: \<^verbatim>\<open>{totalSeconds, visits, firstVisit,
  lastVisit}\<close>.
\<close>

definition visited :: "int \<Rightarrow> int \<Rightarrow> int \<Rightarrow> int \<Rightarrow> json" where
  "visited secs visits first_ms last_ms =
     JObj [(''totalSeconds'', JNum secs), (''visits'', JNum visits),
           (''firstVisit'', JNum first_ms), (''lastVisit'', JNum last_ms)]"

text \<open>Usage stats with a title, a category and visit times.\<close>

definition page :: "string \<Rightarrow> string \<Rightarrow> int \<Rightarrow> int \<Rightarrow> int \<Rightarrow> int \<Rightarrow> json" where
  "page title' category' secs visits first_ms last_ms =
     JObj [(''title'', JStr title'), (''category'', JStr category'),
           (''totalSeconds'', JNum secs), (''visits'', JNum visits),
           (''firstVisit'', JNum first_ms), (''lastVisit'', JNum last_ms)]"

text \<open>A stored row with a title and a category of its own.\<close>

definition titled_db :: db where
  "titled_db = fresh_db\<lparr>usage_records :=
     [\<lparr>ur_user_id = ''user-1'', ur_device_id = ''dev-1'', ur_domain = ''example.com'',
       ur_title = Some ''Example Domain'', ur_category = Some ''Reference'',
       ur_date = ''2024-01-01'', ur_total_seconds = 100, ur_visits = 2,
       ur_first_visit = Some ''2024-01-01T09:00:00.000Z'',
       ur_last_visit = Some ''2024-01-01T10:00:00.000Z'', ur_synced_at = 1000\<rparr>]\<rparr>"

text \<open>A report whose second date maps to \<^verbatim>\<open>null\<close>.\<close>

definition broken_report :: json where
  "broken_report =
     JObj [(''2024-01-01'', JObj [(''example.com'', stats 100 2)]),
           (''2024-01-02'', JNull)]"

subsection \<open>A user at the limit of 200 screenshots\<close>

definition shot :: "nat \<Rightarrow> screenshot" where
  "shot i =
     \<lparr>ss_id = ''shot-'' @ digits i, ss_user_id = ''user-1'', ss_device_id = ''dev-1'',
      ss_filename = digits i @ ''.jpg'', ss_domain = ''example.com'', ss_title = [],
      ss_url = [], ss_category = ''Other'', ss_timestamp = ''2024-01-01T09:00:00.000Z'',
      ss_date = ''2024-01-01'', ss_file_size = 1024, ss_created_at = i\<rparr>"

definition full_store :: store where
  "full_store =
     \<lparr>tables = fresh_db\<lparr>screenshots := map shot [0..<200]\<rparr>,
      disk = (\<lambda>x. (''user-1'', ss_filename x)) ` set (map shot [0..<200])\<rparr>"

definition upload_fields :: upload_body where
  "upload_fields =
     \<lparr>ub_deviceId = Some ''dev-1'', ub_dataUrl = None, ub_domain = Some ''example.com'',
      ub_title = None, ub_url = None, ub_category = None, ub_timestamp = None, ub_date = None\<rparr>"

subsection \<open>Usage records for the queries\<close>

definition usage :: "string \<Rightarrow> string \<Rightarrow> string \<Rightarrow> string \<Rightarrow> string \<Rightarrow> int \<Rightarrow> int \<Rightarrow> usage_record" where
  "usage uid did domain title' day secs visits =
     \<lparr>ur_user_id = uid, ur_device_id = did, ur_domain = domain, ur_title = Some title',
      ur_category = Some ''Other'', ur_date = day, ur_total_seconds = secs, ur_visits = visits,
      ur_first_visit = None, ur_last_visit = None, ur_synced_at = 1000\<rparr>"

definition phone :: device where
  "phone = \<lparr>dev_id = ''dev-2'', dev_user_id = ''user-2'', dev_device_name = ''phone'',
            dev_device_type = ''android'', dev_last_sync_at = None\<rparr>"

text \<open>Two days of one user, and a record of another user.\<close>

definition two_days_db :: db where
  "two_days_db =
     \<lparr>devices = [laptop, phone],
      usage_records =
        [usage ''user-1'' ''dev-1'' ''example.com'' ''Example Domain'' ''2024-01-01'' 100 2,
         usage ''user-1'' ''dev-1'' ''news.org'' ''News'' ''2024-01-01'' 300 4,
         usage ''user-1'' ''dev-1'' ''example.com'' ''Example Domain'' ''2024-01-02'' 50 1,
         usage ''user-2'' ''dev-2'' ''example.com'' ''Example Domain'' ''2024-01-01'' 999 9],
      activity_events = [], sync_log = [], screenshots = []\<rparr>"

text \<open>
  The example of the specification: two domains with 500 and 300 seconds within the last
  7 days of a clock at 2024-01-15.
\<close>

definition two_domains_db :: db where
  "two_domains_db =
     fresh_db\<lparr>usage_records :=
        [usage ''user-1'' ''dev-1'' ''b.com'' ''B'' ''2024-01-11'' 300 3,
         usage ''user-1'' ''dev-1'' ''a.com'' ''A'' ''2024-01-10'' 500 5]\<rparr>"

text \<open>One domain seen under two titles, 300 seconds each, and another with 500.\<close>

definition two_titles_db :: db where
  "two_titles_db =
     fresh_db\<lparr>usage_records :=
        [usage ''user-1'' ''dev-1'' ''a.com'' ''A - inbox'' ''2024-01-10'' 300 3,
         usage ''user-1'' ''dev-1'' ''a.com'' ''A - sent'' ''2024-01-11'' 300 3,
         usage ''user-1'' ''dev-1'' ''b.com'' ''B'' ''2024-01-12'' 500 5]\<rparr>"

section \<open>Supporting lemmas\<close>

subsection \<open>The two loops are one pass over the steps of the report\<close>

lemma upsert_all_append:
  "upsert_all now (xs @ ys) T n =
     (case upsert_all now xs T n of
        (Thrown, T', n') \<Rightarrow> (Thrown, T', n')
      | (Done, T', n') \<Rightarrow> upsert_all now ys T' n')"
proof (induction xs arbitrary: T n)
  case Nil
  show ?case by simp
next
  case (Cons x xs)
  show ?case by (cases x) (simp_all add: Cons.IH)
qed

lemma upsert_domains_all:
  "upsert_domains e now uid did date es T n =
     upsert_all now (map (\<lambda>(domain, data). entry_params e uid did date domain data) es) T n"
proof (induction es arbitrary: T n)
  case Nil
  show ?case by simp
next
  case (Cons x es)
  obtain domain data where x: "x = (domain, data)" by (cases x)
  show ?case unfolding x by (cases "entry_params e uid did date domain data") (simp_all add: Cons.IH)
qed

lemma upsert_dates_all:
  "upsert_dates e now uid did ds T n = upsert_all now (concat (map (date_steps e uid did) ds)) T n"
proof (induction ds arbitrary: T n)
  case Nil
  show ?case by simp
next
  case (Cons x ds)
  obtain date domains where x: "x = (date, domains)" by (cases x)
  show ?case
  proof (cases "object_entries domains")
    case None
    then show ?thesis by (simp add: x date_steps_def)
  next
    case (Some es)
    then show ?thesis
      by (simp add: x date_steps_def upsert_all_append upsert_domains_all Cons.IH
               split: prod.splits completion.splits)
  qed
qed

lemma upsert_all_eq:
  "upsert_all now xs T n =
     (if None \<in> set xs then Thrown else Done,
      foldl (\<lambda>T p. upsert_usage now p T) T (applied xs),
      n + length (applied xs))"
proof (induction xs arbitrary: T n)
  case Nil
  show ?case by (simp add: applied_def)
next
  case (Cons x xs)
  show ?case
  proof (cases x)
    case None
    then show ?thesis by (simp add: applied_def)
  next
    case (Some p)
    then show ?thesis using Cons.IH [of "upsert_usage now p T" "n + 1"]
      by (auto simp add: applied_def)
  qed
qed

subsection \<open>The stored row of a key under one statement and under many\<close>

lemma find_map_pres:
  assumes "\<And>x. P (f x) = P x"
  shows "find P (map f xs) = map_option f (find P xs)"
  by (induction xs) (simp_all add: assms)

lemma find_snoc:
  "find P (xs @ [x]) = (case find P xs of None \<Rightarrow> (if P x then Some x else None) | Some y \<Rightarrow> Some y)"
  by (induction xs) simp_all

lemma find_None_iff2: "find P xs = None \<longleftrightarrow> (\<forall>x \<in> set xs. \<not> P x)"
  by (induction xs) simp_all

lemma usage_row_upsert_same:
  "usage_row (p_user_id p) (p_device_id p) (p_domain p) (p_date p) (upsert_usage now p T) =
     Some (case usage_row (p_user_id p) (p_device_id p) (p_domain p) (p_date p) T of
             None \<Rightarrow> inserted now p | Some r \<Rightarrow> do_update now p r)"
proof (cases "\<exists>r \<in> set T. conflict p r")
  case True
  let ?P = "\<lambda>r. ur_user_id r = p_user_id p \<and> ur_device_id r = p_device_id p \<and>
                 ur_domain r = p_domain p \<and> ur_date r = p_date p"
  let ?f = "\<lambda>r. if conflict p r then do_update now p r else r"
  have pres: "\<And>x. ?P (?f x) = ?P x" by (simp add: do_update_def)
  from True have "find ?P T \<noteq> None"
    by (auto simp add: find_None_iff2 conflict_def)
  then obtain r where r: "find ?P T = Some r" by auto
  then have "?P r" by (auto simp add: find_Some_iff)
  then have "conflict p r" by (simp add: conflict_def)
  with r True show ?thesis
    by (simp add: usage_row_def upsert_usage_def find_map_pres [of ?P ?f, OF pres])
next
  case False
  then have "find (\<lambda>r. ur_user_id r = p_user_id p \<and> ur_device_id r = p_device_id p \<and>
                 ur_domain r = p_domain p \<and> ur_date r = p_date p) T = None"
    by (auto simp add: find_None_iff2 conflict_def)
  with False show ?thesis
    by (simp add: usage_row_def upsert_usage_def find_snoc inserted_def)
qed

lemma usage_row_upsert_other:
  assumes "(uid, did, domain, date) \<noteq> p_key p"
  shows "usage_row uid did domain date (upsert_usage now p T) = usage_row uid did domain date T"
proof -
  let ?P = "\<lambda>r. ur_user_id r = uid \<and> ur_device_id r = did \<and> ur_domain r = domain \<and> ur_date r = date"
  let ?f = "\<lambda>r. if conflict p r then do_update now p r else r"
  have pres: "\<And>x. ?P (?f x) = ?P x" by (simp add: do_update_def)
  have nc: "\<And>r. ?P r \<Longrightarrow> \<not> conflict p r"
    using assms by (auto simp add: conflict_def p_key_def)
  show ?thesis
  proof (cases "\<exists>r \<in> set T. conflict p r")
    case True
    have "map_option ?f (find ?P T) = find ?P T"
    proof (cases "find ?P T")
      case None
      then show ?thesis by simp
    next
      case (Some r)
      then have "?P r" by (auto simp add: find_Some_iff)
      with nc [of r] Some show ?thesis by simp
    qed
    with True show ?thesis
      by (simp add: usage_row_def upsert_usage_def find_map_pres [of ?P ?f, OF pres])
  next
    case False
    have "\<not> ?P (inserted now p)"
      using assms by (auto simp add: inserted_def p_key_def)
    with False show ?thesis
      by (simp add: usage_row_def upsert_usage_def find_snoc split: option.splits)
  qed
qed

lemma usage_row_upserts_other:
  assumes "\<forall>q \<in> set ps. p_key q \<noteq> (uid, did, domain, date)"
  shows "usage_row uid did domain date (foldl (\<lambda>T p. upsert_usage now p T) T ps) =
         usage_row uid did domain date T"
  using assms
proof (induction ps arbitrary: T)
  case Nil
  show ?case by simp
next
  case (Cons q ps)
  then have "(uid, did, domain, date) \<noteq> p_key q" by auto
  with Cons show ?case by (simp add: usage_row_upsert_other)
qed

lemma usage_row_upserts:
  assumes "distinct (map p_key ps)" and "p \<in> set ps"
  shows "usage_row (p_user_id p) (p_device_id p) (p_domain p) (p_date p)
           (foldl (\<lambda>T p. upsert_usage now p T) T ps) =
         Some (case usage_row (p_user_id p) (p_device_id p) (p_domain p) (p_date p) T of
                 None \<Rightarrow> inserted now p | Some r \<Rightarrow> do_update now p r)"
  using assms
proof (induction ps arbitrary: T)
  case Nil
  then show ?case by simp
next
  case (Cons q ps)
  show ?case
  proof (cases "q = p")
    case True
    from Cons.prems True have "p_key p \<notin> p_key ` set ps" by simp
    then have "\<forall>q \<in> set ps. p_key q \<noteq> p_key p" by (metis imageI)
    then have "\<forall>q \<in> set ps. p_key q \<noteq> (p_user_id p, p_device_id p, p_domain p, p_date p)"
      by (simp add: p_key_def)
    then show ?thesis
      using True by (simp add: usage_row_upserts_other usage_row_upsert_same)
  next
    case False
    with Cons.prems have mem: "p \<in> set ps" and d: "distinct (map p_key ps)"
      and ni: "p_key q \<notin> p_key ` set ps" by auto
    from mem ni have ne: "p_key p \<noteq> p_key q" by (metis imageI)
    from ne have "(p_user_id p, p_device_id p, p_domain p, p_date p) \<noteq> p_key q"
      by (simp add: p_key_def)
    then show ?thesis
      using Cons.IH [OF d mem] by (simp add: usage_row_upsert_other)
  qed
qed

subsection \<open>What a push that ran to its end has done\<close>

lemma entry_params_key:
  assumes "entry_params e uid did date domain data = Some p"
  shows "p_user_id p = uid" "p_device_id p = did" "p_domain p = domain" "p_date p = date"
  using assms
  by (auto simp add: entry_params_def bind_eq_Some_conv split: if_splits)

lemma date_steps_entries:
  assumes "None \<notin> set (date_steps e uid did dd)"
  shows "date_steps e uid did dd =
         map (\<lambda>(date, domain, data). entry_params e uid did date domain data) (date_entries dd)"
  using assms
  by (cases "object_entries (snd dd)") (auto simp add: date_steps_def date_entries_def)

lemma report_steps_entries:
  assumes "None \<notin> set (concat (map (date_steps e uid did) ds))"
  shows "concat (map (date_steps e uid did) ds) =
         map (\<lambda>(date, domain, data). entry_params e uid did date domain data)
           (concat (map date_entries ds))"
  using assms
proof (induction ds)
  case Nil
  show ?case by simp
next
  case (Cons dd ds)
  from Cons.prems have a: "None \<notin> set (date_steps e uid did dd)"
    and b: "None \<notin> set (concat (map (date_steps e uid did) ds))" by simp_all
  show ?case by (simp add: date_steps_entries [OF a] Cons.IH [OF b])
qed

lemma applied_all: "None \<notin> set xs \<Longrightarrow> applied xs = map the xs"
proof (induction xs)
  case Nil
  show ?case by (simp add: applied_def)
next
  case (Cons a xs)
  then show ?case by (cases a) (simp_all add: applied_def)
qed

lemma map_Some_the: "None \<notin> set xs \<Longrightarrow> map Some (map the xs) = xs"
proof (induction xs)
  case Nil
  show ?case by simp
next
  case (Cons a xs)
  then show ?case by (cases a) simp_all
qed

lemma upsert_report_Done:
  assumes "upsert_report e now uid did (Some u) T = (Done, T', n)" and "is_object u"
  shows "\<exists>ps. map (\<lambda>(date, domain, data). entry_params e uid did date domain data) (report_entries u)
                = map Some ps \<and>
              T' = foldl (\<lambda>T p. upsert_usage now p T) T ps \<and> n = length ps"
proof -
  from assms(2) obtain ds where ds: "object_entries u = Some ds" and t: "truthy u"
    by (cases u) auto
  let ?steps = "concat (map (date_steps e uid did) ds)"
  from assms ds t have run: "upsert_all now ?steps T 0 = (Done, T', n)"
    by (simp add: upsert_report_def upsert_dates_all)
  then have nn: "None \<notin> set ?steps"
    by (simp add: upsert_all_eq split: if_splits)
  have steps: "?steps = map (\<lambda>(date, domain, data). entry_params e uid did date domain data)
                 (report_entries u)"
    using report_steps_entries [OF nn] by (simp add: report_entries_def ds)
  from nn have "map Some (map the ?steps) = ?steps"
    by (rule map_Some_the)
  moreover from run nn have "T' = foldl (\<lambda>T p. upsert_usage now p T) T (map the ?steps)"
    and "n = length (map the ?steps)"
    by (simp_all add: upsert_all_eq applied_all)
  ultimately show ?thesis using steps by metis
qed

lemma select_device_Some:
  "select_device did uid ds = Some (Some d) \<longleftrightarrow> find_device did uid ds = Some d"
  by (simp add: select_device_def split: option.splits)

lemma select_device_found [simp]:
  "find_device did uid ds = Some d \<Longrightarrow> select_device did uid ds = Some (Some d)"
  by (simp add: select_device_Some)

lemma select_device_missing:
  "find_device did uid ds = None \<Longrightarrow>
     select_device did uid ds =
       (if CHR 0x00 \<in> set did \<or> CHR 0x00 \<in> set uid then None else Some None)"
  by (simp add: select_device_def text_param_def)

lemma push_Inr:
  assumes "push e now uid body s = (Inr ok, s')"
  shows "\<exists>did dev T n A m. deviceId body = Some did \<and> did \<noteq> [] \<and>
           find_device did uid (devices s) = Some dev \<and>
           upsert_report e now uid did (usageData body) (usage_records s) = (Done, T, n) \<and>
           insert_activity e uid did (activityEvents body) (activity_events s) = (Done, A, m) \<and>
           ok = \<lparr>usageRecords = n, activityEventsSynced = m\<rparr> \<and>
           s' = s\<lparr>usage_records := T, activity_events := A,
                  devices := touch_device now did (devices s),
                  sync_log := sync_log s @ [log_push now uid did n]\<rparr>"
  using assms
  by (auto simp add: push_def push_device_def select_device_Some
           split: option.splits if_splits prod.splits completion.splits)

subsection \<open>The row of an entry after a push, and the values bound for it\<close>

lemma push_entry_row:
  assumes "push e now uid body s = (Inr ok, s')"
    and "deviceId body = Some did" and "usageData body = Some u" and "is_object u"
    and "(date, domain, data) \<in> set (report_entries u)"
    and "distinct (map (\<lambda>(date, domain, data). (date, domain)) (report_entries u))"
  shows "\<exists>p. entry_params e uid did date domain data = Some p \<and>
           usage_row uid did domain date (usage_records s') =
             Some (case usage_row uid did domain date (usage_records s) of
                     None \<Rightarrow> inserted now p | Some r \<Rightarrow> do_update now p r)"
proof -
  let ?F = "\<lambda>(date, domain, data). entry_params e uid did date domain data"
  from push_Inr [OF assms(1)] assms(2,3) obtain T n where
    rep: "upsert_report e now uid did (Some u) (usage_records s) = (Done, T, n)"
    and s': "usage_records s' = T" by auto
  from upsert_report_Done [OF rep assms(4)] obtain ps where
    ps: "map ?F (report_entries u) = map Some ps"
    and T: "T = foldl (\<lambda>T p. upsert_usage now p T) (usage_records s) ps" by auto
  from assms(5) have "?F (date, domain, data) \<in> ?F ` set (report_entries u)"
    by (rule imageI)
  then have "entry_params e uid did date domain data \<in> set (map ?F (report_entries u))"
    by simp
  with ps obtain p where p: "entry_params e uid did date domain data = Some p" and mem: "p \<in> set ps"
    by auto
  note k = entry_params_key [OF p]
  have keys: "map p_key ps = map (\<lambda>(date, domain, data). (uid, did, domain, date)) (report_entries u)"
  proof -
    have "map (map_option p_key) (map ?F (report_entries u)) =
          map (\<lambda>(date, domain, data). Some (uid, did, domain, date)) (report_entries u)"
    proof -
      have "\<And>x. x \<in> set (report_entries u) \<Longrightarrow>
              map_option p_key (?F x) = (\<lambda>(date, domain, data). Some (uid, did, domain, date)) x"
      proof -
        fix x assume "x \<in> set (report_entries u)"
        then have "?F x \<in> set (map Some ps)" unfolding ps [symmetric] by simp
        then obtain q where q: "?F x = Some q" by auto
        obtain a b c where x: "x = (a, b, c)" by (cases x)
        from q x have "entry_params e uid did a b c = Some q" by simp
        from entry_params_key [OF this] q x show "map_option p_key (?F x) =
            (\<lambda>(date, domain, data). Some (uid, did, domain, date)) x"
          by (simp add: p_key_def)
      qed
      then show ?thesis by simp
    qed
    then have "map (map_option p_key) (map Some ps) =
               map Some (map (\<lambda>(date, domain, data). (uid, did, domain, date)) (report_entries u))"
      unfolding ps by (simp add: comp_def case_prod_unfold)
    then have "map Some (map p_key ps) =
               map Some (map (\<lambda>(date, domain, data). (uid, did, domain, date)) (report_entries u))"
      by (simp add: comp_def)
    then show ?thesis by (simp add: inj_map_eq_map [OF inj_Some] del: map_map)
  qed
  have "map (\<lambda>(date, domain, data). (uid, did, domain, date)) (report_entries u) =
        map (\<lambda>(date, domain). (uid, did, domain, date))
          (map (\<lambda>(date, domain, data). (date, domain)) (report_entries u))"
    by (simp add: comp_def case_prod_unfold)
  moreover have "inj (\<lambda>(date, domain). (uid, did, domain, date))"
    by (auto simp add: inj_on_def)
  ultimately have dist: "distinct (map p_key ps)"
    using assms(6) unfolding keys
    by (simp only: distinct_map) (auto intro: inj_on_subset)
  from usage_row_upserts [OF dist mem, of now "usage_records s"] k
  have row: "usage_row uid did domain date (usage_records s') =
         Some (case usage_row uid did domain date (usage_records s) of
                 None \<Rightarrow> inserted now p | Some r \<Rightarrow> do_update now p r)"
    by (simp add: s' T)
  from p row show ?thesis by blast
qed

lemma truthy_iff: "truthy x \<longleftrightarrow> x \<notin> {JNull, JBool False, JNum 0, JStr []}"
  by (cases x) auto

lemma integer_or_0_Some:
  assumes "integer_or_0 e v = Some n"
  shows "case v of None \<Rightarrow> n = 0
         | Some x \<Rightarrow> if x \<in> {JNull, JBool False, JNum 0, JStr []} then n = 0
                     else pg_integer e x = Some n"
  using assms by (cases v) (auto simp add: integer_or_0_def truthy_iff split: if_splits)

lemma iso_or_null_Some:
  assumes "iso_or_null e v = Some t"
  shows "case v of None \<Rightarrow> t = None
         | Some x \<Rightarrow> if x \<in> {JNull, JBool False, JNum 0, JStr []} then t = None
                     else t \<noteq> None \<and> toISOString e x = t"
  using assms by (cases v) (auto simp add: iso_or_null_def truthy_iff split: if_splits)

lemma text_or_Some:
  assumes "text_or e v d = Some t"
  shows "case v of None \<Rightarrow> t = d
         | Some x \<Rightarrow> if x \<in> {JNull, JBool False, JNum 0, JStr []} then t = d
                     else (case x of JStr w \<Rightarrow> t = w \<and> CHR 0x00 \<notin> set w | _ \<Rightarrow> pg_text e x = Some t)"
  using assms
  by (cases v)
     (auto simp add: text_or_def truthy_iff bind_text_def text_param_def split: if_splits json.splits)

lemma entry_params_fields:
  assumes "entry_params e uid did date domain data = Some p"
  shows "text_or e (get_prop data ''title'') domain = p_title p \<and> p_title p \<noteq> None"
    and "text_or e (get_prop data ''category'') ''Other'' = p_category p \<and> p_category p \<noteq> None"
    and "integer_or_0 e (get_prop data ''totalSeconds'') = Some (p_total_seconds p)"
    and "integer_or_0 e (get_prop data ''visits'') = Some (p_visits p)"
    and "iso_or_null e (get_prop data ''firstVisit'') = Some (p_first_visit p)"
    and "iso_or_null e (get_prop data ''lastVisit'') = Some (p_last_visit p)"
  using assms
  by (auto simp add: entry_params_def bind_eq_Some_conv split: if_splits)

subsection \<open>Whatever the outcome, a push runs a list of statements\<close>

lemma upsert_report_all:
  "upsert_report e now uid did ud T = upsert_all now (report_steps e uid did ud) T 0"
  by (simp add: upsert_report_def report_steps_def upsert_dates_all split: option.splits)

lemma insert_events_eq:
  "insert_events e uid did evs A n =
     (if None \<in> set (map (event_row e uid did) evs) then Thrown else Done,
      A @ map the (takeWhile (\<lambda>x. x \<noteq> None) (map (event_row e uid did) evs)),
      n + length (takeWhile (\<lambda>x. x \<noteq> None) (map (event_row e uid did) evs)))"
proof (induction evs arbitrary: A n)
  case Nil
  show ?case by simp
next
  case (Cons ev evs)
  show ?case
  proof (cases "event_row e uid did ev")
    case None
    then show ?thesis by simp
  next
    case (Some row)
    then show ?thesis using Cons.IH [of "A @ [row]" "n + 1"] by auto
  qed
qed

lemma insert_activity_again:
  assumes "insert_activity e uid did evs A = (Done, A', m)"
  shows "\<exists>B'. insert_activity e uid did evs B = (Done, B', m)"
proof (cases evs)
  case None
  with assms show ?thesis by (simp add: insert_activity_def)
next
  case (Some v)
  with assms show ?thesis
    by (cases v) (auto simp add: insert_activity_def insert_events_eq split: if_splits)
qed

subsection \<open>Counters under the statement\<close>

lemma upsert_usage_mono:
  assumes "usage_row uid did domain date T = Some r"
  shows "\<exists>r'. usage_row uid did domain date (upsert_usage now p T) = Some r' \<and>
           ur_total_seconds r \<le> ur_total_seconds r' \<and> ur_visits r \<le> ur_visits r'"
proof (cases "(uid, did, domain, date) = p_key p")
  case True
  then have k: "p_user_id p = uid" "p_device_id p = did" "p_domain p = domain" "p_date p = date"
    by (simp_all add: p_key_def)
  from usage_row_upsert_same [of p now T] assms show ?thesis
    by (simp add: k do_update_def)
next
  case False
  from usage_row_upsert_other [OF False] assms show ?thesis by simp
qed

lemma upserts_mono:
  assumes "usage_row uid did domain date T = Some r"
  shows "\<exists>r'. usage_row uid did domain date (foldl (\<lambda>T p. upsert_usage now p T) T ps) = Some r' \<and>
           ur_total_seconds r \<le> ur_total_seconds r' \<and> ur_visits r \<le> ur_visits r'"
  using assms
proof (induction ps arbitrary: T r)
  case Nil
  then show ?case by simp
next
  case (Cons p ps)
  from upsert_usage_mono [OF Cons.prems, of now p] obtain r1 where
    r1: "usage_row uid did domain date (upsert_usage now p T) = Some r1"
    and le1: "ur_total_seconds r \<le> ur_total_seconds r1" "ur_visits r \<le> ur_visits r1" by auto
  from Cons.IH [OF r1] obtain r' where
    "usage_row uid did domain date
       (foldl (\<lambda>T p. upsert_usage now p T) (upsert_usage now p T) ps) = Some r'"
    and "ur_total_seconds r1 \<le> ur_total_seconds r'" "ur_visits r1 \<le> ur_visits r'" by auto
  with le1 show ?case by auto
qed

lemma push_usage_records:
  "\<exists>ps. usage_records (snd (push e now uid body s)) =
         foldl (\<lambda>T p. upsert_usage now p T) (usage_records s) ps"
proof -
  have nil: "usage_records s = foldl (\<lambda>T p. upsert_usage now p T) (usage_records s) []" by simp
  show ?thesis
  proof (cases "\<exists>did dev. deviceId body = Some did \<and> did \<noteq> [] \<and> find_device did uid (devices s) = Some dev")
    case False
    then have "snd (push e now uid body s) = s"
      by (auto simp add: push_def select_device_Some split: option.splits)
    with nil show ?thesis by metis
  next
    case True
    then obtain did dev where d: "deviceId body = Some did" "did \<noteq> []"
      "find_device did uid (devices s) = Some dev" by auto
    have "usage_records (snd (push e now uid body s)) =
          foldl (\<lambda>T p. upsert_usage now p T) (usage_records s)
            (applied (report_steps e uid did (usageData body)))"
      using d
      by (simp add: push_def push_device_def upsert_report_all upsert_all_eq
               split: prod.splits completion.splits)
    then show ?thesis by metis
  qed
qed

subsection \<open>A statement run twice\<close>

lemma least_absorb: "least a b = a \<Longrightarrow> least (least a c) b = least a c"
  by (cases a; cases b; cases c) (auto simp add: min_def split: if_splits)

lemma greatest_absorb: "greatest a b = a \<Longrightarrow> greatest (greatest a c) b = greatest a c"
  by (cases a; cases b; cases c) (auto simp add: max_def split: if_splits)

lemma least_self: "least (least a b) b = least a b"
  by (cases a; cases b) auto

lemma greatest_self: "greatest (greatest a b) b = greatest a b"
  by (cases a; cases b) auto

lemma least_same: "least a a = a"
  by (cases a) auto

lemma greatest_same: "greatest a a = a"
  by (cases a) auto

lemma conflict_do_update: "conflict p (do_update now q r) = conflict p r"
  by (simp add: conflict_def do_update_def)

lemma ex_conflict_map:
  assumes "\<exists>r \<in> set T. conflict p r"
  shows "\<exists>r \<in> set (map (\<lambda>r. if conflict q r then do_update now q r else r) T). conflict p r"
proof -
  let ?f = "\<lambda>r. if conflict q r then do_update now q r else r"
  from assms obtain r0 where r0: "r0 \<in> set T" "conflict p r0" by blast
  from r0(2) have "conflict p (?f r0)" by (simp add: conflict_do_update)
  moreover from r0(1) have "?f r0 \<in> ?f ` set T" by (rule imageI)
  ultimately show ?thesis unfolding set_map by (rule bexI)
qed

lemma absorbed_unchanged:
  assumes "absorbed p T"
  shows "map usage_state (upsert_usage now p T) = map usage_state T"
proof -
  from assms have ex: "\<exists>r \<in> set T. conflict p r" by (simp add: absorbed_def)
  have "\<And>r. r \<in> set T \<Longrightarrow> conflict p r \<Longrightarrow> usage_state (do_update now p r) = usage_state r"
    using assms by (auto simp add: absorbed_def usage_state_def do_update_def)
  then have "map (usage_state \<circ> (\<lambda>r. if conflict p r then do_update now p r else r)) T = map usage_state T"
    by (intro map_cong) auto
  with ex show ?thesis by (simp add: upsert_usage_def)
qed

lemma absorbed_upsert:
  assumes "absorbed p T"
  shows "absorbed p (upsert_usage now q T)"
proof (cases "\<exists>r \<in> set T. conflict q r")
  case True
  then have T': "upsert_usage now q T = map (\<lambda>r. if conflict q r then do_update now q r else r) T"
    by (simp add: upsert_usage_def)
  from assms have "\<exists>r \<in> set T. conflict p r" by (simp add: absorbed_def)
  then have ex: "\<exists>r \<in> set (upsert_usage now q T). conflict p r"
    unfolding T' by (rule ex_conflict_map)
  have all: "\<And>r'. r' \<in> set (upsert_usage now q T) \<Longrightarrow> conflict p r' \<Longrightarrow>
        p_total_seconds p \<le> ur_total_seconds r' \<and> p_visits p \<le> ur_visits r' \<and>
        least (ur_first_visit r') (p_first_visit p) = ur_first_visit r' \<and>
        greatest (ur_last_visit r') (p_last_visit p) = ur_last_visit r'"
  proof -
    fix r' assume "r' \<in> set (upsert_usage now q T)" and c: "conflict p r'"
    then obtain r where r: "r \<in> set T" and r': "r' = (if conflict q r then do_update now q r else r)"
      unfolding T' by auto
    from c r' have cr: "conflict p r" by (simp add: conflict_do_update split: if_splits)
    with assms r have dom: "p_total_seconds p \<le> ur_total_seconds r" "p_visits p \<le> ur_visits r"
      "least (ur_first_visit r) (p_first_visit p) = ur_first_visit r"
      "greatest (ur_last_visit r) (p_last_visit p) = ur_last_visit r"
      by (auto simp add: absorbed_def)
    show "p_total_seconds p \<le> ur_total_seconds r' \<and> p_visits p \<le> ur_visits r' \<and>
        least (ur_first_visit r') (p_first_visit p) = ur_first_visit r' \<and>
        greatest (ur_last_visit r') (p_last_visit p) = ur_last_visit r'"
      using dom by (simp add: r' do_update_def least_absorb greatest_absorb le_max_iff_disj)
  qed
  from ex all show ?thesis unfolding absorbed_def by blast
next
  case False
  then have T': "upsert_usage now q T = T @ [inserted now q]"
    by (simp add: upsert_usage_def)
  from assms obtain r0 where r0: "r0 \<in> set T" "conflict p r0" by (auto simp add: absorbed_def)
  with False have "\<not> conflict q r0" by auto
  with r0 have "\<not> conflict p (inserted now q)"
    by (auto simp add: conflict_def inserted_def)
  with assms show ?thesis unfolding T' absorbed_def by auto
qed

lemma absorbed_self: "absorbed p (upsert_usage now p T)"
proof (cases "\<exists>r \<in> set T. conflict p r")
  case True
  then have T': "upsert_usage now p T = map (\<lambda>r. if conflict p r then do_update now p r else r) T"
    by (simp add: upsert_usage_def)
  from True have ex: "\<exists>r \<in> set (upsert_usage now p T). conflict p r"
    unfolding T' by (rule ex_conflict_map)
  have all: "\<And>r'. r' \<in> set (upsert_usage now p T) \<Longrightarrow> conflict p r' \<Longrightarrow>
        p_total_seconds p \<le> ur_total_seconds r' \<and> p_visits p \<le> ur_visits r' \<and>
        least (ur_first_visit r') (p_first_visit p) = ur_first_visit r' \<and>
        greatest (ur_last_visit r') (p_last_visit p) = ur_last_visit r'"
  proof -
    fix r' assume "r' \<in> set (upsert_usage now p T)" and c: "conflict p r'"
    then obtain r where r: "r \<in> set T" and r': "r' = (if conflict p r then do_update now p r else r)"
      unfolding T' by auto
    from c r' have cr: "conflict p r" by (simp add: conflict_do_update split: if_splits)
    show "p_total_seconds p \<le> ur_total_seconds r' \<and> p_visits p \<le> ur_visits r' \<and>
        least (ur_first_visit r') (p_first_visit p) = ur_first_visit r' \<and>
        greatest (ur_last_visit r') (p_last_visit p) = ur_last_visit r'"
      using cr by (simp add: r' do_update_def least_self greatest_self)
  qed
  from ex all show ?thesis unfolding absorbed_def by blast
next
  case False
  then show ?thesis
    by (auto simp add: upsert_usage_def absorbed_def inserted_def conflict_def
          least_same greatest_same)
qed

lemma absorbed_upserts:
  "\<forall>p \<in> set ps. absorbed p (foldl (\<lambda>T p. upsert_usage now p T) T ps)"
proof (induction ps rule: rev_induct)
  case Nil
  show ?case by simp
next
  case (snoc q ps)
  then show ?case by (auto simp add: absorbed_self absorbed_upsert)
qed

lemma upserts_absorbed:
  assumes "\<forall>p \<in> set ps. absorbed p T"
  shows "map usage_state (foldl (\<lambda>T p. upsert_usage now p T) T ps) = map usage_state T"
  using assms
proof (induction ps arbitrary: T)
  case Nil
  show ?case by simp
next
  case (Cons q ps)
  then have "\<forall>p \<in> set ps. absorbed p (upsert_usage now q T)"
    by (simp add: absorbed_upsert)
  from Cons.IH [OF this] Cons.prems show ?case by (simp add: absorbed_unchanged)
qed

lemma find_device_touch:
  assumes "find_device did uid ds = Some dev"
  shows "find_device did uid (touch_device now d ds) \<noteq> None"
proof -
  let ?P = "\<lambda>d. dev_id d = did \<and> dev_user_id d = uid"
  let ?f = "\<lambda>x. if dev_id x = d then x\<lparr>dev_last_sync_at := Some now\<rparr> else x"
  have pres: "\<And>x. ?P (?f x) = ?P x" by simp
  from assms show ?thesis
    by (simp add: find_device_def touch_device_def find_map_pres [of ?P ?f, OF pres])
qed

subsection \<open>What the driver writes, \<^verbatim>\<open>parseInt\<close> reads\<close>

lemma digit_char_is_digit: "d < 10 \<Longrightarrow> is_digit (digit_char d)"
  by (simp add: is_digit_def digit_char_def less_eq_char_def)

lemma digit_value_digit_char: "d < 10 \<Longrightarrow> digit_value (digit_char d) = d"
  using digit_char_is_digit [of d] by (simp add: digit_value_def digit_char_def)

lemma digits_not_Nil: "digits n \<noteq> []"
  by (subst digits.simps) simp

lemma digits_are_digits: "c \<in> set (digits n) \<Longrightarrow> is_digit c"
proof (induction n arbitrary: c rule: digits.induct)
  case (1 n)
  show ?case
  proof (cases "n < 10")
    case True
    with "1.prems" show ?thesis by (subst (asm) digits.simps) (simp add: digit_char_is_digit)
  next
    case False
    with "1.prems" "1.IH" show ?thesis
      by (subst (asm) digits.simps) (auto simp add: digit_char_is_digit)
  qed
qed

lemma number_of_snoc: "number_of r (ds @ [c]) = r * number_of r ds + digit_value c"
  by (simp add: number_of_def)

lemma number_of_digits: "number_of 10 (digits n) = n"
proof (induction n rule: digits.induct)
  case (1 n)
  show ?case
  proof (cases "n < 10")
    case True
    then show ?thesis by (subst digits.simps) (simp add: number_of_def digit_value_digit_char)
  next
    case False
    with "1.IH" show ?thesis
      by (subst digits.simps) (simp add: number_of_snoc digit_value_digit_char)
  qed
qed

lemma takeWhile_all: "(\<And>c. c \<in> set xs \<Longrightarrow> P c) \<Longrightarrow> takeWhile P xs = xs"
  by (induction xs) auto

lemma parseInt_decimal:
  assumes "ds \<noteq> []" and "\<And>c. c \<in> set ds \<Longrightarrow> is_digit c"
  shows "parseInt ds = Some (int (number_of 10 ds))"
    and "parseInt (CHR ''-'' # ds) = Some (- int (number_of 10 ds))"
proof -
  obtain c cs where d: "ds = c # cs" using assms(1) by (cases ds) auto
  have c: "is_digit c" using assms(2) d by simp
  have nd: "\<not> is_digit CHR ''x''" "\<not> is_digit CHR ''X''" "\<not> is_digit CHR ''-''" "\<not> is_digit CHR ''+''"
    by (simp_all add: is_digit_def less_eq_char_def)
  have ws: "\<not> white_space c"
    using c by (auto simp add: is_digit_def white_space_def less_eq_char_def)
  have f1: "dropWhile white_space ds = ds" using ws d by simp
  have f2: "take (Suc 0) ds \<noteq> ''-''" "take (Suc 0) ds \<noteq> ''+''" using c nd d by auto
  have f3: "take 2 ds \<noteq> ''0x''" "take 2 ds \<noteq> ''0X''"
    using assms(2) nd d by (cases cs; auto)+
  have f4: "takeWhile is_digit ds = ds" using assms(2) by (rule takeWhile_all)
  have f5: "dropWhile white_space (CHR ''-'' # ds) = CHR ''-'' # ds" by (simp add: white_space_def)
  show "parseInt ds = Some (int (number_of 10 ds))"
    by (simp add: parseInt_def Let_def f1 f2 f3 f4 assms(1))
  show "parseInt (CHR ''-'' # ds) = Some (- int (number_of 10 ds))"
  proof -
    have t: "take 1 (CHR ''-'' # ds) = ''-''" "drop 1 (CHR ''-'' # ds) = ds" by simp_all
    have h: "(take 2 ds = ''0x'' \<or> take 2 ds = ''0X'') = False" using f3 by simp
    show ?thesis
      unfolding parseInt_def Let_def f5 t h
      by (simp add: f3 f4 assms(1))
  qed
qed

lemma parseInt_bigint_text: "parseInt (bigint_text n) = Some n"
proof (cases "n < 0")
  case False
  have "parseInt (digits (nat n)) = Some (int (number_of 10 (digits (nat n))))"
    by (rule parseInt_decimal(1)) (rule digits_not_Nil, rule digits_are_digits)
  with False show ?thesis by (simp add: bigint_text_def number_of_digits)
next
  case True
  have "parseInt (CHR ''-'' # digits (nat (- n))) = Some (- int (number_of 10 (digits (nat (- n)))))"
    by (rule parseInt_decimal(2)) (rule digits_not_Nil, rule digits_are_digits)
  with True show ?thesis by (simp add: bigint_text_def number_of_digits)
qed

lemma bigint_text_inj: "bigint_text a = bigint_text b \<Longrightarrow> a = b"
  by (metis parseInt_bigint_text option.inject)

subsection \<open>Grouping, ordering and the totals of the queries\<close>

lemma or_default_0: "or_default (Some x) 0 = x"
  by (simp add: or_default_def)

lemma coalesce_0_sum: "coalesce_0 (sql_sum xs) = sum_list xs"
  by (simp add: coalesce_0_def sql_sum_def)

lemma mset_arranged: "mset (arranged e rows) = mset rows"
proof (cases "sort (row_order e (length rows)) = [0..<length rows]")
  case True
  have "mset (row_order e (length rows)) = mset (sort (row_order e (length rows)))" by simp
  also have "\<dots> = mset [0..<length rows]" by (simp only: True)
  finally have "mset (map (nth rows) (row_order e (length rows))) = mset (map (nth rows) [0..<length rows])"
    by (simp only: mset_map)
  with True show ?thesis by (simp add: arranged_def map_nth)
next
  case False
  then show ?thesis by (simp add: arranged_def)
qed

lemma mset_order_by_desc: "mset (order_by_desc e f rows) = mset rows"
  by (simp add: order_by_desc_def mset_arranged)

lemma set_arranged: "set (arranged e rows) = set rows"
  by (rule mset_eq_setD) (rule mset_arranged)

lemma length_arranged: "length (arranged e rows) = length rows"
  by (rule mset_eq_length) (rule mset_arranged)

lemma distinct_map_arranged: "distinct (map g (arranged e rows)) = distinct (map g rows)"
  by (rule mset_eq_imp_distinct_iff) (simp add: mset_arranged)

lemma sorted_uminus: "sorted (map (\<lambda>r. - f r) xs) = sorted_wrt (\<lambda>a b. f b \<le> (f a :: int)) xs"
  by (induction xs) auto

lemma order_by_desc_sorted: "sorted_wrt (\<lambda>a b. f b \<le> f a) (order_by_desc e f rows)"
  unfolding order_by_desc_def sorted_uminus [symmetric] by (rule sorted_sort_key)

lemma set_order_by_desc: "set (order_by_desc e f rows) = set rows"
  by (rule mset_eq_setD) (rule mset_order_by_desc)

lemma length_order_by_desc: "length (order_by_desc e f rows) = length rows"
  by (rule mset_eq_length) (rule mset_order_by_desc)

lemma distinct_map_order_by_desc:
  "distinct (map g (order_by_desc e f rows)) = distinct (map g rows)"
  by (rule mset_eq_imp_distinct_iff) (simp add: mset_order_by_desc)

text \<open>The rows come sorted by a number of which they carry the text.\<close>

lemma sorted_texts:
  "\<exists>ns. map (\<lambda>x. bigint_text (f x)) xs = map bigint_text ns \<and> length ns = length xs \<and>
        (sorted_wrt (\<lambda>a b. f b \<le> f a) xs \<longrightarrow> sorted_wrt (\<lambda>a b. b \<le> a) ns)"
  by (rule exI [of _ "map f xs"]) (simp add: sorted_wrt_map)

lemma in_group_by:
  "(k, g) \<in> set (group_by f rows) \<longleftrightarrow> k \<in> f ` set rows \<and> g = filter (\<lambda>r. f r = k) rows"
  by (auto simp add: group_by_def)

lemma group_by_keys: "map fst (group_by f rows) = remdups (map f rows)"
  by (simp add: group_by_def comp_def)

lemma top_k:
  assumes "a \<in> set (take k (order_by_desc e f rows))" and "b \<in> set (drop k (order_by_desc e f rows))"
  shows "f b \<le> f a"
proof -
  have "sorted_wrt (\<lambda>a b. f b \<le> f a) (take k (order_by_desc e f rows) @ drop k (order_by_desc e f rows))"
    by (simp add: order_by_desc_sorted)
  with assms show ?thesis unfolding sorted_wrt_append by blast
qed

lemma filter_filter_conj: "filter P (filter Q xs) = filter (\<lambda>x. Q x \<and> P x) xs"
  by (induction xs) auto

subsection \<open>The groups of a query\<close>

lemma length_group_by: "length (group_by f rows) = card (f ` set rows)"
  by (simp add: group_by_def length_remdups_card_conv)

lemma distinct_group_by: "distinct (map fst (group_by f rows))"
  by (simp add: group_by_keys)

lemma group_rows:
  assumes "(k, g) \<in> set (group_by f (filter W T))"
  shows "g = filter (\<lambda>r. W r \<and> f r = k) T" and "\<exists>r \<in> set T. W r \<and> f r = k"
  using assms by (auto simp add: in_group_by filter_filter_conj)

lemma group_of_row:
  assumes "r \<in> set T" and "W r"
  shows "(f r, filter (\<lambda>r'. W r' \<and> f r' = f r) T) \<in> set (group_by f (filter W T))"
  using assms by (auto simp add: in_group_by filter_filter_conj)

lemma card_keys: "card (f ` {r \<in> set T. W r}) = length (remdups (map f (filter W T)))"
proof -
  have "{r \<in> set T. W r} = set (filter W T)" by auto
  then show ?thesis by (simp add: length_remdups_card_conv)
qed

lemma count_distinct_card: "int (count_distinct (map f (filter W T))) = int (card (f ` {r \<in> set T. W r}))"
  by (simp add: count_distinct_def card_keys)

lemma grouped_rows:
  assumes "S = map mk L" and "set L = set (group_by f (filter W T))"
  shows "\<forall>x \<in> set S. \<exists>k. x = mk (k, filter (\<lambda>r. W r \<and> f r = k) T) \<and> (\<exists>r \<in> set T. W r \<and> f r = k)"
    and "\<forall>r \<in> set T. W r \<longrightarrow> mk (f r, filter (\<lambda>r'. W r' \<and> f r' = f r) T) \<in> set S"
proof -
  show "\<forall>x \<in> set S. \<exists>k. x = mk (k, filter (\<lambda>r. W r \<and> f r = k) T) \<and> (\<exists>r \<in> set T. W r \<and> f r = k)"
  proof
    fix x assume "x \<in> set S"
    then obtain kg where kg: "kg \<in> set L" and x: "x = mk kg" unfolding assms(1) by auto
    obtain k g where c: "kg = (k, g)" by (cases kg)
    from kg have "(k, g) \<in> set (group_by f (filter W T))" unfolding c assms(2) .
    from group_rows [OF this] x c
    show "\<exists>k. x = mk (k, filter (\<lambda>r. W r \<and> f r = k) T) \<and> (\<exists>r \<in> set T. W r \<and> f r = k)"
      by blast
  qed
  show "\<forall>r \<in> set T. W r \<longrightarrow> mk (f r, filter (\<lambda>r'. W r' \<and> f r' = f r) T) \<in> set S"
  proof (intro ballI impI)
    fix r assume "r \<in> set T" and "W r"
    then have "(f r, filter (\<lambda>r'. W r' \<and> f r' = f r) T) \<in> set L"
      unfolding assms(2) by (rule group_of_row)
    then show "mk (f r, filter (\<lambda>r'. W r' \<and> f r' = f r) T) \<in> set S"
      unfolding assms(1) by simp
  qed
qed

lemma grouped_distinct:
  assumes "S = map mk L" and "mset L = mset (group_by f rows)" and "\<And>kg. keyx (mk kg) = fst kg"
  shows "distinct (map keyx S)"
proof -
  have "map keyx S = map fst L" unfolding assms(1) by (simp add: assms(3))
  moreover have "distinct (map fst L) = distinct (map fst (group_by f rows))"
    by (rule mset_eq_imp_distinct_iff) (simp add: assms(2))
  ultimately show ?thesis by (simp add: distinct_group_by)
qed

lemma ranked_texts:
  assumes "S = map mk (order_by_desc e (\<lambda>g. seconds_of (snd g)) G)"
    and "\<And>kg. txt (mk kg) = bigint_text (seconds_of (snd kg))"
  shows "\<exists>ns. map txt S = map bigint_text ns \<and> sorted_wrt (\<lambda>a b. b \<le> a) ns"
proof (rule exI [of _ "map (\<lambda>g. seconds_of (snd g)) (order_by_desc e (\<lambda>g. seconds_of (snd g)) G)"], rule conjI)
  show "map txt S = map bigint_text (map (\<lambda>g. seconds_of (snd g)) (order_by_desc e (\<lambda>g. seconds_of (snd g)) G))"
    unfolding assms(1) by (simp add: assms(2))
  have "sorted_wrt (\<lambda>a b. seconds_of (snd b) \<le> seconds_of (snd a)) (order_by_desc e (\<lambda>g. seconds_of (snd g)) G)"
    by (rule order_by_desc_sorted)
  then show "sorted_wrt (\<lambda>a b. b \<le> a) (map (\<lambda>g. seconds_of (snd g)) (order_by_desc e (\<lambda>g. seconds_of (snd g)) G))"
    by (simp add: sorted_wrt_map)
qed

lemma arranged_Nil: "arranged e [] = []"
  using length_arranged [of e "[]"] by simp

lemma join_devices_product:
  "join_devices (filter W T) ds =
     filter (\<lambda>j. W (fst j) \<and> ur_device_id (fst j) = dev_id (snd j)) (List.product T ds)"
proof (induction T)
  case Nil
  show ?case by (simp add: join_devices_def)
next
  case (Cons r T)
  have "filter (\<lambda>j. W (fst j) \<and> ur_device_id (fst j) = dev_id (snd j)) (map (Pair r) ds) =
        (if W r then map (Pair r) (filter (\<lambda>d. ur_device_id r = dev_id d) ds) else [])"
    by (simp add: filter_map comp_def)
  with Cons show ?case by (simp add: join_devices_def)
qed

lemma daily_refused_date:
  assumes "day \<noteq> []" and "CHR 0x00 \<in> set day"
  shows "daily e now_ms uid (Some day) s = Inl InternalServerError"
  using assms by (simp add: daily_def text_param_def)

subsection \<open>Title and category: the statement and the handler\<close>

lemma do_update_keeps_null_title:
  "p_title p = None \<Longrightarrow> p_category p = None \<Longrightarrow>
   ur_title (do_update now p r) = ur_title r \<and> ur_category (do_update now p r) = ur_category r"
  by (simp add: do_update_def)

lemma entry_params_never_null:
  "entry_params e uid did date domain data = Some p \<Longrightarrow> p_title p \<noteq> None \<and> p_category p \<noteq> None"
  by (auto simp add: entry_params_def bind_eq_Some_conv split: if_splits)

subsection \<open>Examples of pushes\<close>

lemma push_without_device_id:
  assumes "deviceId body = None \<or> deviceId body = Some []"
  shows "push e now uid body s = (Inl DeviceIdRequired, s)"
  using assms by (auto simp add: push_def)

lemma push_partial_merge:
  "fst (push example_env 1000 ''user-1'' (push_of (Some broken_report)) fresh_db) = Inl InternalServerError \<and>
   map ur_domain (usage_records (snd (push example_env 1000 ''user-1'' (push_of (Some broken_report)) fresh_db)))
     = [''example.com'']"
  by code_simp

lemma push_widens_visit_window:
  "map (\<lambda>r. (ur_total_seconds r, ur_visits r, ur_first_visit r, ur_last_visit r))
     (usage_records (push_seq example_env
        [(1000, ''user-1'', push_of (Some (report (visited 100 2 1704103200000 1704106800000)))),
         (2000, ''user-1'', push_of (Some (report (visited 80 5 1704099600000 1704105000000)))),
         (3000, ''user-1'', push_of (Some (report (stats 90 1))))] fresh_db))
   = [(100, 5, Some ''2024-01-01T09:00:00.000Z'', Some ''2024-01-01T11:00:00.000Z'')]"
  by code_simp

subsection \<open>Screenshots: the insertion and the limit\<close>

lemma insert_screenshot_Some:
  assumes "insert_screenshot e now now_ms new_id uid filename sz body t0 = Some t"
  shows "\<exists>row. screenshots t = screenshots t0 @ [row] \<and> ss_user_id row = uid \<and>
           ss_id row = new_id \<and> new_id \<notin> ss_id ` set (screenshots t0)"
proof -
  from assms have "\<not> (\<exists>x \<in> set (screenshots t0). ss_id x = new_id)"
    by (auto simp add: insert_screenshot_def bind_eq_Some_conv split: if_splits)
  then have "new_id \<notin> ss_id ` set (screenshots t0)" by auto
  moreover from assms have "\<exists>row. screenshots t = screenshots t0 @ [row] \<and> ss_user_id row = uid \<and>
           ss_id row = new_id"
    by (auto simp add: insert_screenshot_def bind_eq_Some_conv split: if_splits)
  ultimately show ?thesis by blast
qed

lemma upload_appends:
  assumes "upload e now now_ms new_id uid file body st = (Inr r, st')"
  shows "\<exists>row. screenshots (tables st') = screenshots (tables st) @ [row] \<and> ss_user_id row = uid \<and>
           ss_id row = new_id"
proof -
  from assms obtain f t where "insert_screenshot e now now_ms new_id uid (fst f) (snd f) body (tables st) = Some t"
    and "tables st' = t"
    by (auto simp add: upload_def split: option.splits)
  with insert_screenshot_Some show ?thesis by blast
qed

lemma length_filter_not_in:
  assumes "distinct ys" and "distinct xs" and "set xs \<subseteq> set ys"
  shows "length (filter (\<lambda>y. y \<notin> set xs) ys) = length ys - length xs"
proof -
  have "length (filter (\<lambda>y. y \<notin> set xs) ys) = card ({y. y \<notin> set xs} \<inter> set ys)"
    using assms(1) by (rule distinct_length_filter)
  also have "{y. y \<notin> set xs} \<inter> set ys = set ys - set xs" by auto
  also have "card (set ys - set xs) = card (set ys) - card (set xs)"
    using assms(3) by (simp add: card_Diff_subset)
  finally show ?thesis using assms(1,2) by (simp add: distinct_card)
qed

lemma foldl_delete_screenshot:
  "screenshots (tables (foldl (delete_screenshot uid) st xs)) =
     filter (\<lambda>y. ss_id y \<notin> ss_id ` set xs) (screenshots (tables st))"
proof (induction xs arbitrary: st)
  case Nil
  show ?case by simp
next
  case (Cons x xs)
  have "screenshots (tables (delete_screenshot uid st x)) =
        filter (\<lambda>y. ss_id y \<noteq> ss_id x) (screenshots (tables st))"
    by (simp add: delete_screenshot_def)
  then show ?case
    unfolding foldl_Cons Cons.IH by (simp add: filter_filter_conj)
qed

lemma foldl_delete_disk:
  "disk (foldl (delete_screenshot uid) st xs) = disk st - (\<lambda>x. (uid, ss_filename x)) ` set xs"
proof (induction xs arbitrary: st)
  case Nil
  show ?case by simp
next
  case (Cons x xs)
  have "disk (delete_screenshot uid st x) = disk st - {(uid, ss_filename x)}"
    by (simp add: delete_screenshot_def)
  then show ?case
    unfolding foldl_Cons Cons.IH by auto
qed

lemma enforce_limit_eq:
  "enforce_limit e uid st =
     (if 200 < length (filter (\<lambda>x. ss_user_id x = uid) (screenshots (tables st)))
      then foldl (delete_screenshot uid) st
             (oldest e uid (length (filter (\<lambda>x. ss_user_id x = uid) (screenshots (tables st))) - 200)
                (screenshots (tables st)))
      else st)"
proof -
  have "nat (int (length (filter (\<lambda>x. ss_user_id x = uid) (screenshots (tables st)))) - 200) =
        length (filter (\<lambda>x. ss_user_id x = uid) (screenshots (tables st))) - 200"
    by simp
  then show ?thesis
    by (simp add: enforce_limit_def parseInt_bigint_text)
qed

lemma enforce_limit_removes_oldest:
  assumes "200 < length (filter (\<lambda>x. ss_user_id x = uid) (screenshots (tables st)))"
  shows "screenshots (tables (enforce_limit e uid st)) =
           filter (\<lambda>y. ss_id y \<notin> ss_id `
               set (oldest e uid (length (filter (\<lambda>x. ss_user_id x = uid) (screenshots (tables st))) - 200)
                      (screenshots (tables st))))
             (screenshots (tables st))"
    and "disk (enforce_limit e uid st) =
           disk st - (\<lambda>x. (uid, ss_filename x)) `
               set (oldest e uid (length (filter (\<lambda>x. ss_user_id x = uid) (screenshots (tables st))) - 200)
                      (screenshots (tables st)))"
  using assms
  by (simp_all add: enforce_limit_eq foldl_delete_screenshot foldl_delete_disk)

lemma oldest_are_oldest:
  assumes "x \<in> set (oldest e uid k S)" and "y \<in> set S" and "ss_user_id y = uid"
    and "y \<notin> set (oldest e uid k S)"
  shows "ss_created_at x \<le> ss_created_at y"
proof -
  let ?xs = "sort_key ss_created_at (arranged e (filter (\<lambda>x. ss_user_id x = uid) S))"
  have s: "sorted (map ss_created_at (take k ?xs @ drop k ?xs))" by simp
  from assms(2,3) have "y \<in> set ?xs" by (simp add: set_arranged)
  then have "y \<in> set (take k ?xs) \<or> y \<in> set (drop k ?xs)"
    by (metis Un_iff append_take_drop_id set_append)
  with assms(4) have y: "y \<in> set (drop k ?xs)" by (simp add: oldest_def)
  from assms(1) have x: "x \<in> set (take k ?xs)" by (simp add: oldest_def)
  from s x y show ?thesis
    unfolding map_append sorted_append by auto
qed

lemma enforce_limit_count:
  assumes "distinct (map ss_id (screenshots (tables st)))"
  shows "length (filter (\<lambda>x. ss_user_id x = uid) (screenshots (tables (enforce_limit e uid st)))) =
         min 200 (length (filter (\<lambda>x. ss_user_id x = uid) (screenshots (tables st))))"
proof -
  let ?S = "screenshots (tables st)"
  let ?mine = "filter (\<lambda>x. ss_user_id x = uid) ?S"
  let ?c = "length ?mine"
  show ?thesis
  proof (cases "?c > 200")
    case False
    then show ?thesis by (simp add: enforce_limit_eq)
  next
    case True
    let ?xs = "oldest e uid (?c - 200) ?S"
    from assms have dS: "distinct ?S" and inj: "inj_on ss_id (set ?S)"
      by (simp_all add: distinct_map)
    have dm: "distinct ?mine" using dS by simp
    have "distinct (arranged e ?mine)"
      using dm distinct_map_arranged [of "\<lambda>x. x" e ?mine] by simp
    then have dx: "distinct ?xs" by (simp add: oldest_def)
    have sub: "set ?xs \<subseteq> set ?mine"
      unfolding oldest_def by (rule subset_trans [OF set_take_subset]) (simp add: set_arranged)
    have len: "length ?xs = ?c - 200" by (simp add: oldest_def length_arranged)
    have "filter (\<lambda>x. ss_user_id x = uid) (filter (\<lambda>y. ss_id y \<notin> ss_id ` set ?xs) ?S) =
          filter (\<lambda>y. y \<notin> set ?xs) ?mine"
    proof -
      have "\<And>y. y \<in> set ?S \<Longrightarrow> ss_user_id y = uid \<Longrightarrow>
              (ss_id y \<notin> ss_id ` set ?xs) = (y \<notin> set ?xs)"
      proof -
        fix y assume y: "y \<in> set ?S" "ss_user_id y = uid"
        from sub have "set ?xs \<subseteq> set ?S" by auto
        with inj y(1) show "(ss_id y \<notin> ss_id ` set ?xs) = (y \<notin> set ?xs)"
          by (meson inj_on_image_mem_iff)
      qed
      then have "\<And>y. y \<in> set ?S \<Longrightarrow>
              (ss_id y \<notin> ss_id ` set ?xs \<and> ss_user_id y = uid) =
              (ss_user_id y = uid \<and> y \<notin> set ?xs)"
        by blast
      then show ?thesis
        unfolding filter_filter_conj by (rule filter_cong [OF refl])
    qed
    then have "length (filter (\<lambda>x. ss_user_id x = uid) (screenshots (tables (enforce_limit e uid st)))) =
          length (filter (\<lambda>y. y \<notin> set ?xs) ?mine)"
      using True by (simp add: enforce_limit_eq foldl_delete_screenshot)
    also have "\<dots> = ?c - length ?xs" using dm dx sub by (rule length_filter_not_in)
    finally show ?thesis using True len by simp
  qed
qed

lemma upload_base64_within_limit:
  assumes "upload_base64 e now now_ms name_uuid new_id uid body st = (Inr r, st')"
    and "distinct (map ss_id (screenshots (tables st)))"
  shows "length (filter (\<lambda>x. ss_user_id x = uid) (screenshots (tables st'))) \<le> 200"
proof -
  from assms(1) obtain t fn sz where
    ins: "insert_screenshot e now now_ms new_id uid fn sz body (tables st) = Some t"
    and st': "st' = enforce_limit e uid \<lparr>tables = t, disk = insert (uid, fn) (disk st)\<rparr>"
    by (auto simp add: upload_base64_def Let_def split: option.splits)
  from insert_screenshot_Some [OF ins] obtain row where t: "screenshots t = screenshots (tables st) @ [row]"
    and fresh: "ss_id row \<notin> ss_id ` set (screenshots (tables st))"
    by auto
  with assms(2) have "distinct (map ss_id (screenshots t))" by simp
  then have "distinct (map ss_id (screenshots (tables \<lparr>tables = t, disk = insert (uid, fn) (disk st)\<rparr>)))"
    by simp
  from enforce_limit_count [OF this, of uid] show ?thesis unfolding st' by simp
qed

section \<open>The claims\<close>

text \<open>
  Claim C1. A push that succeeds has merged every entry \<open>(date, domain)\<close> of its report
  into the row of the key \<open>(uid, did, domain, date)\<close>. The incoming values are read from
  the entry: the total seconds and the visits are the numbers of the entry as PostgreSQL
  stores them, 0 for a property that is absent or falsy; the first and the last visit are
  the ISO strings of the entry's times, \<^verbatim>\<open>NULL\<close> for a property that is absent or falsy;
  the title and the category are the strings of the entry, the domain and \<^verbatim>\<open>Other\<close> for
  a property that is absent or falsy. Where a row was stored, the new total and visits are
  the greater of the stored and the incoming ones, the first visit is the lesser and the last
  visit the greater in the order of the column, \<^verbatim>\<open>NULL\<close> being no bound; where none was
  stored, the row holds the incoming values. The keys of a report are distinct, as the
  property names of a JavaScript object are. The example of the specification, 100 seconds
  and 2 visits then 80 seconds and 5 visits, leaves 100 and 5.
\<close>

theorem push_merges_entry:
  assumes "push e now uid body s = (Inr ok, s')"
    and "deviceId body = Some did" and "usageData body = Some u" and "is_object u"
    and "(date, domain, data) \<in> set (report_entries u)"
    and "distinct (map (\<lambda>(date, domain, data). (date, domain)) (report_entries u))"
  shows "\<exists>secs vis fv lv ti ca r'.
     (case get_prop data ''totalSeconds'' of None \<Rightarrow> secs = 0
      | Some x \<Rightarrow> if x \<in> {JNull, JBool False, JNum 0, JStr []} then secs = 0
                  else pg_integer e x = Some secs) \<and>
     (case get_prop data ''visits'' of None \<Rightarrow> vis = 0
      | Some x \<Rightarrow> if x \<in> {JNull, JBool False, JNum 0, JStr []} then vis = 0
                  else pg_integer e x = Some vis) \<and>
     (case get_prop data ''firstVisit'' of None \<Rightarrow> fv = None
      | Some x \<Rightarrow> if x \<in> {JNull, JBool False, JNum 0, JStr []} then fv = None
                  else fv \<noteq> None \<and> toISOString e x = fv) \<and>
     (case get_prop data ''lastVisit'' of None \<Rightarrow> lv = None
      | Some x \<Rightarrow> if x \<in> {JNull, JBool False, JNum 0, JStr []} then lv = None
                  else lv \<noteq> None \<and> toISOString e x = lv) \<and>
     (case get_prop data ''title'' of None \<Rightarrow> ti = domain
      | Some x \<Rightarrow> if x \<in> {JNull, JBool False, JNum 0, JStr []} then ti = domain
                  else (case x of JStr w \<Rightarrow> ti = w \<and> CHR 0x00 \<notin> set w
                        | _ \<Rightarrow> pg_text e x = Some ti)) \<and>
     (case get_prop data ''category'' of None \<Rightarrow> ca = ''Other''
      | Some x \<Rightarrow> if x \<in> {JNull, JBool False, JNum 0, JStr []} then ca = ''Other''
                  else (case x of JStr w \<Rightarrow> ca = w \<and> CHR 0x00 \<notin> set w
                        | _ \<Rightarrow> pg_text e x = Some ca)) \<and>
     usage_row uid did domain date (usage_records s') = Some r' \<and>
     (case usage_row uid did domain date (usage_records s) of
        None \<Rightarrow>
          ur_total_seconds r' = secs \<and> ur_visits r' = vis \<and>
          ur_first_visit r' = fv \<and> ur_last_visit r' = lv \<and>
          ur_title r' = Some ti \<and> ur_category r' = Some ca
      | Some r \<Rightarrow>
          ur_total_seconds r' = max (ur_total_seconds r) secs \<and>
          ur_visits r' = max (ur_visits r) vis \<and>
          ur_first_visit r' =
            (case ur_first_visit r of None \<Rightarrow> fv
             | Some a \<Rightarrow> (case fv of None \<Rightarrow> Some a | Some b \<Rightarrow> Some (min a b))) \<and>
          ur_last_visit r' =
            (case ur_last_visit r of None \<Rightarrow> lv
             | Some a \<Rightarrow> (case lv of None \<Rightarrow> Some a | Some b \<Rightarrow> Some (max a b))))"
proof -
  from push_entry_row [OF assms] obtain p where
    p: "entry_params e uid did date domain data = Some p"
    and row: "usage_row uid did domain date (usage_records s') =
             Some (case usage_row uid did domain date (usage_records s) of
                     None \<Rightarrow> inserted now p | Some r \<Rightarrow> do_update now p r)"
    by blast
  note f = entry_params_fields [OF p]
  from f(1) obtain ti where ti: "p_title p = Some ti" "text_or e (get_prop data ''title'') domain = Some ti"
    by (cases "p_title p") auto
  from f(2) obtain ca where ca: "p_category p = Some ca"
      "text_or e (get_prop data ''category'') ''Other'' = Some ca"
    by (cases "p_category p") auto
  have least_eq: "\<And>a b :: string option. least a b =
      (case a of None \<Rightarrow> b | Some x \<Rightarrow> (case b of None \<Rightarrow> Some x | Some y \<Rightarrow> Some (min x y)))"
    by (simp split: option.splits)
  have greatest_eq: "\<And>a b :: string option. greatest a b =
      (case a of None \<Rightarrow> b | Some x \<Rightarrow> (case b of None \<Rightarrow> Some x | Some y \<Rightarrow> Some (max x y)))"
    by (simp split: option.splits)
  let ?r' = "case usage_row uid did domain date (usage_records s) of
                     None \<Rightarrow> inserted now p | Some r \<Rightarrow> do_update now p r"
  have final: "case usage_row uid did domain date (usage_records s) of
        None \<Rightarrow>
          ur_total_seconds ?r' = p_total_seconds p \<and> ur_visits ?r' = p_visits p \<and>
          ur_first_visit ?r' = p_first_visit p \<and> ur_last_visit ?r' = p_last_visit p \<and>
          ur_title ?r' = Some ti \<and> ur_category ?r' = Some ca
      | Some r \<Rightarrow>
          ur_total_seconds ?r' = max (ur_total_seconds r) (p_total_seconds p) \<and>
          ur_visits ?r' = max (ur_visits r) (p_visits p) \<and>
          ur_first_visit ?r' =
            (case ur_first_visit r of None \<Rightarrow> p_first_visit p
             | Some a \<Rightarrow> (case p_first_visit p of None \<Rightarrow> Some a | Some b \<Rightarrow> Some (min a b))) \<and>
          ur_last_visit ?r' =
            (case ur_last_visit r of None \<Rightarrow> p_last_visit p
             | Some a \<Rightarrow> (case p_last_visit p of None \<Rightarrow> Some a | Some b \<Rightarrow> Some (max a b)))"
    by (cases "usage_row uid did domain date (usage_records s)")
       (simp_all add: inserted_def do_update_def ti(1) ca(1) least_eq greatest_eq)
  show ?thesis
    apply (rule exI [of _ "p_total_seconds p"])
    apply (rule exI [of _ "p_visits p"])
    apply (rule exI [of _ "p_first_visit p"])
    apply (rule exI [of _ "p_last_visit p"])
    apply (rule exI [of _ ti])
    apply (rule exI [of _ ca])
    apply (rule exI [of _ ?r'])
    apply (intro conjI)
    subgoal by (rule integer_or_0_Some [OF f(3)])
    subgoal by (rule integer_or_0_Some [OF f(4)])
    subgoal by (rule iso_or_null_Some [OF f(5)])
    subgoal by (rule iso_or_null_Some [OF f(6)])
    subgoal by (rule text_or_Some [OF ti(2)])
    subgoal by (rule text_or_Some [OF ca(2)])
    subgoal by (rule row)
    subgoal by (rule final)
    done
qed

theorem push_merges_entry_witness:
  "(\<exists>r'. usage_row ''user-1'' ''dev-1'' ''example.com'' ''2024-01-01''
            (usage_records (snd (push example_env 2000 ''user-1''
               (push_of (Some (report (stats 80 5)))) pushed_once))) = Some r' \<and>
          ur_total_seconds r' = 100 \<and> ur_visits r' = 5) \<and>
   (\<exists>r'. usage_row ''user-1'' ''dev-1'' ''example.com'' ''2024-01-01''
            (usage_records (snd (push example_env 1000 ''user-1''
               (push_of (Some (report (page ''Example Domain'' ''Reference'' 100 2 1704103200000 1704106800000)))) fresh_db))) = Some r' \<and>
          ur_total_seconds r' = 100 \<and> ur_visits r' = 2 \<and>
          ur_title r' = Some ''Example Domain'' \<and> ur_category r' = Some ''Reference'' \<and>
          ur_first_visit r' = Some ''2024-01-01T10:00:00.000Z'' \<and>
          ur_last_visit r' = Some ''2024-01-01T11:00:00.000Z'') \<and>
   (\<exists>r'. usage_row ''user-1'' ''dev-1'' ''example.com'' ''2024-01-01''
            (usage_records (snd (push example_env 2000 ''user-1''
               (push_of (Some (report (page ''Example'' ''Docs'' 80 5 1704101400000 1704105000000)))) titled_db))) = Some r' \<and>
          ur_total_seconds r' = 100 \<and> ur_visits r' = 5 \<and>
          ur_first_visit r' = Some ''2024-01-01T09:00:00.000Z'' \<and>
          ur_last_visit r' = Some ''2024-01-01T10:30:00.000Z'')"
proof -
  have t: "toISOString example_env (JNum 1704103200000) = Some ''2024-01-01T10:00:00.000Z''"
    "toISOString example_env (JNum 1704106800000) = Some ''2024-01-01T11:00:00.000Z''"
    "toISOString example_env (JNum 1704101400000) = Some ''2024-01-01T09:30:00.000Z''"
    "toISOString example_env (JNum 1704105000000) = Some ''2024-01-01T10:30:00.000Z''"
    by code_simp+
  have mm: "min ''2024-01-01T09:00:00.000Z'' ''2024-01-01T09:30:00.000Z'' = ''2024-01-01T09:00:00.000Z''"
    "max ''2024-01-01T10:00:00.000Z'' ''2024-01-01T10:30:00.000Z'' = ''2024-01-01T10:30:00.000Z''"
    by code_simp+
  have int: "\<And>n. pg_integer example_env (JNum n) =
      (if - 2147483648 \<le> n \<and> n \<le> 2147483647 then Some n else None)"
    by (simp add: example_env_def)

  have a: "\<exists>r'. usage_row ''user-1'' ''dev-1'' ''example.com'' ''2024-01-01''
            (usage_records (snd (push example_env 2000 ''user-1''
               (push_of (Some (report (stats 80 5)))) pushed_once))) = Some r' \<and>
          ur_total_seconds r' = 100 \<and> ur_visits r' = 5"
  proof -
    let ?b = "push_of (Some (report (stats 80 5)))"
    let ?res = "push example_env 2000 ''user-1'' ?b pushed_once"
    have ok: "?res = (Inr \<lparr>usageRecords = 1, activityEventsSynced = 0\<rparr>, snd ?res)" by code_simp
    have d: "deviceId ?b = Some ''dev-1''" and u: "usageData ?b = Some (report (stats 80 5))"
      by (simp_all add: push_of_def)
    have o: "is_object (report (stats 80 5))" by (simp add: report_def)
    have m: "(''2024-01-01'', ''example.com'', stats 80 5) \<in> set (report_entries (report (stats 80 5)))"
      by code_simp
    have di: "distinct (map (\<lambda>(date, domain, data). (date, domain)) (report_entries (report (stats 80 5))))"
      by code_simp
    have old: "usage_row ''user-1'' ''dev-1'' ''example.com'' ''2024-01-01'' (usage_records pushed_once) = Some \<lparr>ur_user_id = ''user-1'', ur_device_id = ''dev-1'', ur_domain = ''example.com'',
            ur_title = Some ''example.com'', ur_category = Some ''Other'', ur_date = ''2024-01-01'',
            ur_total_seconds = 100, ur_visits = 2, ur_first_visit = None, ur_last_visit = None,
            ur_synced_at = 1000\<rparr>"
      by code_simp
    from push_merges_entry [OF ok d u o m di] show ?thesis
      unfolding old by (auto simp add: stats_def page_def int t mm)
  qed

  have b: "\<exists>r'. usage_row ''user-1'' ''dev-1'' ''example.com'' ''2024-01-01''
            (usage_records (snd (push example_env 1000 ''user-1''
               (push_of (Some (report (page ''Example Domain'' ''Reference'' 100 2 1704103200000 1704106800000)))) fresh_db))) = Some r' \<and>
          ur_total_seconds r' = 100 \<and> ur_visits r' = 2 \<and>
          ur_title r' = Some ''Example Domain'' \<and> ur_category r' = Some ''Reference'' \<and>
          ur_first_visit r' = Some ''2024-01-01T10:00:00.000Z'' \<and>
          ur_last_visit r' = Some ''2024-01-01T11:00:00.000Z''"
  proof -
    let ?b = "push_of (Some (report (page ''Example Domain'' ''Reference'' 100 2 1704103200000 1704106800000)))"
    let ?res = "push example_env 1000 ''user-1'' ?b fresh_db"
    have ok: "?res = (Inr \<lparr>usageRecords = 1, activityEventsSynced = 0\<rparr>, snd ?res)" by code_simp
    have d: "deviceId ?b = Some ''dev-1''" and u: "usageData ?b = Some (report (page ''Example Domain'' ''Reference'' 100 2 1704103200000 1704106800000))"
      by (simp_all add: push_of_def)
    have o: "is_object (report (page ''Example Domain'' ''Reference'' 100 2 1704103200000 1704106800000))" by (simp add: report_def)
    have m: "(''2024-01-01'', ''example.com'', page ''Example Domain'' ''Reference'' 100 2 1704103200000 1704106800000) \<in> set (report_entries (report (page ''Example Domain'' ''Reference'' 100 2 1704103200000 1704106800000)))"
      by code_simp
    have di: "distinct (map (\<lambda>(date, domain, data). (date, domain)) (report_entries (report (page ''Example Domain'' ''Reference'' 100 2 1704103200000 1704106800000))))"
      by code_simp
    have old: "usage_row ''user-1'' ''dev-1'' ''example.com'' ''2024-01-01'' (usage_records fresh_db) = None"
      by code_simp
    from push_merges_entry [OF ok d u o m di] show ?thesis
      unfolding old by (auto simp add: stats_def page_def int t mm)
  qed

  have c: "\<exists>r'. usage_row ''user-1'' ''dev-1'' ''example.com'' ''2024-01-01''
            (usage_records (snd (push example_env 2000 ''user-1''
               (push_of (Some (report (page ''Example'' ''Docs'' 80 5 1704101400000 1704105000000)))) titled_db))) = Some r' \<and>
          ur_total_seconds r' = 100 \<and> ur_visits r' = 5 \<and>
          ur_first_visit r' = Some ''2024-01-01T09:00:00.000Z'' \<and>
          ur_last_visit r' = Some ''2024-01-01T10:30:00.000Z''"
  proof -
    let ?b = "push_of (Some (report (page ''Example'' ''Docs'' 80 5 1704101400000 1704105000000)))"
    let ?res = "push example_env 2000 ''user-1'' ?b titled_db"
    have ok: "?res = (Inr \<lparr>usageRecords = 1, activityEventsSynced = 0\<rparr>, snd ?res)" by code_simp
    have d: "deviceId ?b = Some ''dev-1''" and u: "usageData ?b = Some (report (page ''Example'' ''Docs'' 80 5 1704101400000 1704105000000))"
      by (simp_all add: push_of_def)
    have o: "is_object (report (page ''Example'' ''Docs'' 80 5 1704101400000 1704105000000))" by (simp add: report_def)
    have m: "(''2024-01-01'', ''example.com'', page ''Example'' ''Docs'' 80 5 1704101400000 1704105000000) \<in> set (report_entries (report (page ''Example'' ''Docs'' 80 5 1704101400000 1704105000000)))"
      by code_simp
    have di: "distinct (map (\<lambda>(date, domain, data). (date, domain)) (report_entries (report (page ''Example'' ''Docs'' 80 5 1704101400000 1704105000000))))"
      by code_simp
    have old: "usage_row ''user-1'' ''dev-1'' ''example.com'' ''2024-01-01'' (usage_records titled_db) = Some \<lparr>ur_user_id = ''user-1'', ur_device_id = ''dev-1'', ur_domain = ''example.com'',
       ur_title = Some ''Example Domain'', ur_category = Some ''Reference'',
       ur_date = ''2024-01-01'', ur_total_seconds = 100, ur_visits = 2,
       ur_first_visit = Some ''2024-01-01T09:00:00.000Z'',
       ur_last_visit = Some ''2024-01-01T10:00:00.000Z'', ur_synced_at = 1000\<rparr>"
      by code_simp
    from push_merges_entry [OF ok d u o m di] show ?thesis
      unfolding old by (auto simp add: stats_def page_def int t mm)
  qed
  from a b c show ?thesis by (intro conjI)
qed

text \<open>
  Claim C2. Push is idempotent on the usage records: when a push has succeeded, the same
  body pushed again by the same user, at any later time, succeeds with the same counts and
  leaves the key, total seconds, visits, first visit and last visit of every usage record
  as the first push left them.
\<close>

theorem push_idempotent:
  assumes "push e now uid body s = (Inr ok, s1)"
  shows "\<exists>s2. push e now' uid body s1 = (Inr ok, s2) \<and>
           map usage_state (usage_records s2) = map usage_state (usage_records s1)"
proof -
  from push_Inr [OF assms] obtain did dev T n A m where
    d: "deviceId body = Some did" "did \<noteq> []" "find_device did uid (devices s) = Some dev"
    and rep: "upsert_report e now uid did (usageData body) (usage_records s) = (Done, T, n)"
    and act: "insert_activity e uid did (activityEvents body) (activity_events s) = (Done, A, m)"
    and ok: "ok = \<lparr>usageRecords = n, activityEventsSynced = m\<rparr>"
    and s1: "s1 = s\<lparr>usage_records := T, activity_events := A,
                  devices := touch_device now did (devices s),
                  sync_log := sync_log s @ [log_push now uid did n]\<rparr>" by blast
  let ?steps = "report_steps e uid did (usageData body)"
  from rep have nn: "None \<notin> set ?steps"
    and T: "T = foldl (\<lambda>T p. upsert_usage now p T) (usage_records s) (applied ?steps)"
    and n: "n = length (applied ?steps)"
    by (simp_all add: upsert_report_all upsert_all_eq split: if_splits)
  let ?T2 = "foldl (\<lambda>T p. upsert_usage now' p T) T (applied ?steps)"
  have rep2: "upsert_report e now' uid did (usageData body) (usage_records s1) = (Done, ?T2, n)"
    using nn n by (simp add: upsert_report_all upsert_all_eq s1)
  from insert_activity_again [OF act] obtain A2 where
    act2: "insert_activity e uid did (activityEvents body) (activity_events s1) = (Done, A2, m)"
    by blast
  from find_device_touch [OF d(3)] obtain dev2 where
    dev2: "find_device did uid (devices s1) = Some dev2" by (auto simp add: s1)
  have state: "map usage_state ?T2 = map usage_state T"
    unfolding T by (rule upserts_absorbed) (rule absorbed_upserts)
  let ?s2 = "s1\<lparr>usage_records := ?T2, activity_events := A2,
                devices := touch_device now' did (devices s1),
                sync_log := sync_log s1 @ [log_push now' uid did n]\<rparr>"
  have "push e now' uid body s1 = (Inr ok, ?s2)"
    using d dev2 rep2 act2 by (simp add: push_def push_device_def ok)
  moreover have "map usage_state (usage_records ?s2) = map usage_state (usage_records s1)"
    using state by (simp add: s1)
  ultimately show ?thesis by blast
qed

theorem push_idempotent_witness:
  "\<exists>s2. push example_env 2000 ''user-1'' (push_of (Some (report (stats 100 2)))) pushed_once =
          (Inr \<lparr>usageRecords = 1, activityEventsSynced = 0\<rparr>, s2) \<and>
        map usage_state (usage_records s2) = map usage_state (usage_records pushed_once)"
proof -
  have "push example_env 1000 ''user-1'' (push_of (Some (report (stats 100 2)))) fresh_db =
        (Inr \<lparr>usageRecords = 1, activityEventsSynced = 0\<rparr>, pushed_once)"
    by code_simp
  from push_idempotent [OF this] show ?thesis .
qed

text \<open>
  Claim C3. Monotonicity. Whatever pushes follow, by whatever users and whether they succeed
  or raise half way, a stored row stays stored under its key, and its total seconds and its
  visits never go down.
\<close>

theorem counters_never_regress:
  assumes "usage_row uid did domain date (usage_records s) = Some r"
  shows "\<exists>r'. usage_row uid did domain date (usage_records (push_seq e reqs s)) = Some r' \<and>
           ur_total_seconds r \<le> ur_total_seconds r' \<and> ur_visits r \<le> ur_visits r'"
  using assms
proof (induction reqs arbitrary: s r)
  case Nil
  then show ?case by simp
next
  case (Cons req reqs)
  obtain now u body where req: "req = (now, u, body)" by (cases req)
  obtain ps where ps: "usage_records (snd (push e now u body s)) =
      foldl (\<lambda>T p. upsert_usage now p T) (usage_records s) ps"
    using push_usage_records by metis
  from upserts_mono [OF Cons.prems, of now ps] obtain r1 where
    r1: "usage_row uid did domain date (usage_records (snd (push e now u body s))) = Some r1"
    and le1: "ur_total_seconds r \<le> ur_total_seconds r1" "ur_visits r \<le> ur_visits r1"
    unfolding ps by auto
  from Cons.IH [OF r1] obtain r' where
    "usage_row uid did domain date (usage_records (push_seq e reqs (snd (push e now u body s)))) = Some r'"
    and "ur_total_seconds r1 \<le> ur_total_seconds r'" "ur_visits r1 \<le> ur_visits r'" by auto
  with le1 show ?case unfolding req by auto
qed

theorem counters_never_regress_witness:
  "\<exists>r'. usage_row ''user-1'' ''dev-1'' ''example.com'' ''2024-01-01''
          (usage_records (push_seq example_env
             [(2000, ''user-1'', push_of (Some (report (stats 80 5)))),
              (3000, ''user-1'', push_of (Some (report (stats 60 1))))] pushed_once)) = Some r' \<and>
        100 \<le> ur_total_seconds r' \<and> 2 \<le> ur_visits r'"
proof -
  have old: "usage_row ''user-1'' ''dev-1'' ''example.com'' ''2024-01-01'' (usage_records pushed_once) =
      Some \<lparr>ur_user_id = ''user-1'', ur_device_id = ''dev-1'', ur_domain = ''example.com'',
            ur_title = Some ''example.com'', ur_category = Some ''Other'', ur_date = ''2024-01-01'',
            ur_total_seconds = 100, ur_visits = 2, ur_first_visit = None, ur_last_visit = None,
            ur_synced_at = 1000\<rparr>"
    by code_simp
  from counters_never_regress [OF old, of example_env
      "[(2000, ''user-1'', push_of (Some (report (stats 80 5)))),
        (3000, ''user-1'', push_of (Some (report (stats 60 1))))]"]
  show ?thesis by (simp del: push_seq.simps)
qed

text \<open>
  Claim C4 fails on the code. The statement keeps the stored title and category when the
  incoming ones are \<^verbatim>\<open>NULL\<close> (\<open>do_update_keeps_null_title\<close> above), but the handler
  never binds \<^verbatim>\<open>NULL\<close>: for an entry without title and category it binds the domain
  and \<^verbatim>\<open>'Other'\<close>, which replace the stored values. Here the stored row has the title
  \<^verbatim>\<open>Example Domain\<close> and the category \<^verbatim>\<open>Reference\<close>, and the entry has neither.
\<close>

theorem push_replaces_title_and_category:
  "map (\<lambda>r. (ur_title r, ur_category r))
     (usage_records (snd (push example_env 2000 ''user-1'' (push_of (Some (report (stats 120 3)))) titled_db)))
   = [(Some ''example.com'', Some ''Other'')]"
  by code_simp

text \<open>
  Claim C5 as stated fails on the code, which has no answer for an invalid report: a report
  that is a string is accepted, and the push succeeds.
\<close>

theorem push_accepts_string_report:
  "push example_env 1000 ''user-1'' (push_of (Some (JStr ''oops''))) fresh_db =
     (Inr \<lparr>usageRecords = 0, activityEventsSynced = 0\<rparr>,
      fresh_db\<lparr>devices := [laptop\<lparr>dev_last_sync_at := Some 1000\<rparr>],
               sync_log := [\<lparr>sl_user_id = ''user-1'', sl_device_id = ''dev-1'',
                             sl_sync_type = ''push'', sl_records_synced = 0,
                             sl_synced_at = 1000\<rparr>]\<rparr>)"
  by code_simp

text \<open>
  Claim C5, amended. A report that is not an object (a string, a number, a boolean or
  \<^verbatim>\<open>null\<close>) is not rejected but skipped: the push of a known device leaves every usage
  record as it was, and when the body has no activity events it succeeds, with 0 usage
  records synced.
\<close>

theorem push_skips_non_object_report:
  assumes "deviceId body = Some did" and "did \<noteq> []"
    and "find_device did uid (devices s) = Some dev"
    and "usageData body = Some u" and "\<not> is_object u"
  shows "usage_records (snd (push e now uid body s)) = usage_records s \<and>
         (activityEvents body = None \<longrightarrow>
            fst (push e now uid body s) = Inr \<lparr>usageRecords = 0, activityEventsSynced = 0\<rparr>)"
proof -
  from assms(4,5) have rep: "\<And>T. upsert_report e now uid did (usageData body) T = (Done, T, 0)"
    by (simp add: upsert_report_def)
  obtain c A m where act: "insert_activity e uid did (activityEvents body) (activity_events s) = (c, A, m)"
    by (cases "insert_activity e uid did (activityEvents body) (activity_events s)")
  have "usage_records (snd (push e now uid body s)) = usage_records s"
    using assms(1-3) rep act by (cases c) (simp_all add: push_def push_device_def)
  moreover have "activityEvents body = None \<Longrightarrow>
      fst (push e now uid body s) = Inr \<lparr>usageRecords = 0, activityEventsSynced = 0\<rparr>"
    using assms(1-3) rep by (simp add: push_def push_device_def insert_activity_def)
  ultimately show ?thesis by blast
qed

theorem push_skips_non_object_report_witness:
  "usage_records (snd (push example_env 2000 ''user-1'' (push_of (Some (JNum 42))) pushed_once)) =
     usage_records pushed_once \<and>
   fst (push example_env 2000 ''user-1'' (push_of (Some (JNum 42))) pushed_once) =
     Inr \<lparr>usageRecords = 0, activityEventsSynced = 0\<rparr>"
proof -
  have d: "deviceId (push_of (Some (JNum 42))) = Some ''dev-1''"
    and u: "usageData (push_of (Some (JNum 42))) = Some (JNum 42)"
    and a: "activityEvents (push_of (Some (JNum 42))) = None"
    by (simp_all add: push_of_def)
  have n: "''dev-1'' \<noteq> []" by simp
  have f: "find_device ''dev-1'' ''user-1'' (devices pushed_once) = Some (laptop\<lparr>dev_last_sync_at := Some 1000\<rparr>)"
    by code_simp
  have o: "\<not> is_object (JNum 42)" by simp
  from push_skips_non_object_report [OF d n f u o, of example_env 2000] a show ?thesis by simp
qed

text \<open>
  Claim C6 fails on the code for \<^verbatim>\<open>POST /upload\<close>, which inserts the row and enforces no
  limit, while \<^verbatim>\<open>POST /upload-base64\<close> does (\<open>upload_base64_within_limit\<close> above). A user
  with 200 screenshots who uploads a file has 201.
\<close>

theorem upload_exceeds_limit:
  "fst (upload example_env 5000 1705320000000 ''new'' ''user-1'' (Some (''new.jpg'', 2048))
          upload_fields full_store) = Inr \<lparr>up_id = ''new'', up_filename = ''new.jpg''\<rparr> \<and>
   length (filter (\<lambda>x. ss_user_id x = ''user-1'') (screenshots (tables full_store))) = 200 \<and>
   length (filter (\<lambda>x. ss_user_id x = ''user-1'')
     (screenshots (tables (snd (upload example_env 5000 1705320000000 ''new'' ''user-1''
        (Some (''new.jpg'', 2048)) upload_fields full_store))))) = 201"
proof -
  let ?up = "upload example_env 5000 1705320000000 ''new'' ''user-1'' (Some (''new.jpg'', 2048))
          upload_fields full_store"
  have ts: "toISOString example_env (JNum 1705320000000) = Some ''2024-01-15T12:00:00.000Z''"
    by code_simp
  have day: "iso_day example_env 1705320000000 = Some ''2024-01-15''"
    by code_simp
  have pk: "\<not> (\<exists>x \<in> set (screenshots (tables full_store)). ss_id x = ''new'')"
    by (simp add: full_store_def shot_def)
  have fk: "\<exists>d \<in> set (devices (tables full_store)). dev_id d = ''dev-1''"
    by (simp add: full_store_def fresh_db_def laptop_def)
  have ok: "fst ?up = Inr \<lparr>up_id = ''new'', up_filename = ''new.jpg''\<rparr>"
    using pk fk
    by (simp add: upload_def insert_screenshot_def ts day upload_fields_def str_or_def str_or_else_def
          text_param_def)
  have before: "filter (\<lambda>x. ss_user_id x = ''user-1'') (screenshots (tables full_store)) =
                screenshots (tables full_store)"
    by (simp add: full_store_def shot_def)
  have n: "length (screenshots (tables full_store)) = 200"
    by (simp add: full_store_def)
  from ok have "?up = (Inr \<lparr>up_id = ''new'', up_filename = ''new.jpg''\<rparr>, snd ?up)"
    by (simp add: prod_eq_iff)
  from upload_appends [OF this] obtain row where
    "screenshots (tables (snd ?up)) = screenshots (tables full_store) @ [row]"
    and "ss_user_id row = ''user-1''" by blast
  then have "length (filter (\<lambda>x. ss_user_id x = ''user-1'') (screenshots (tables (snd ?up)))) = 201"
    by (simp add: before n)
  with ok before n show ?thesis by simp
qed

text \<open>
  Claim C7 as stated fails on the code: not every numeric field of the answer is an
  integer. The handler applies \<^verbatim>\<open>parseInt\<close> to the row of totals and to the count of
  screenshots; the rows of \<^verbatim>\<open>sites\<close>, \<^verbatim>\<open>categories\<close> and \<^verbatim>\<open>deviceBreakdown\<close> are sent
  as the driver returned them, with their sums and counts as strings. Here the one site
  row has the total seconds \<^verbatim>\<open>"300"\<close>, where the totals have the number 300.
\<close>

theorem daily_rows_are_texts:
  "daily example_env 1705320000000 ''user-1'' (Some ''2024-01-11'') two_domains_db =
     Inr \<lparr>d_date = ''2024-01-11'',
          d_sites =
            [\<lparr>sr_domain = ''b.com'', sr_title = Some ''B'', sr_category = Some ''Other'',
              sr_total_seconds = ''300'', sr_visits = ''3''\<rparr>],
          d_totals = \<lparr>totalSeconds = 300, totalVisits = 3, totalDomains = 1\<rparr>,
          d_categories =
            [\<lparr>cr_category = Some ''Other'', cr_total_seconds = ''300'', cr_total_visits = ''3'',
              cr_sites = ''1''\<rparr>],
          d_deviceBreakdown =
            [\<lparr>dr_device_name = ''laptop'', dr_device_type = ''chrome'', dr_total_seconds = ''300'',
              dr_total_visits = ''3'', dr_domains = ''1''\<rparr>],
          d_screenshotCount = 0\<rparr>"
  by code_simp

text \<open>
  Claim C7, amended. For a user and a date, neither holding the character U+0000, the
  daily summary answers with: totals that are integers, the sums of the total seconds and
  of the visits over all usage records of that user and date and the number of their
  different domains, and the number of the user's screenshots of that date; one site row
  for each (domain, title, category) among those records, one category row for each
  category among them, and one device row for each (name, type) among the devices the
  records join, each row carrying as decimal texts the sums over its records and the number
  of their different domains; site rows and category rows ordered by total seconds
  descending; and, when no record matches, totals that are all 0 and no row.
\<close>

theorem daily_totals_and_rows:
  assumes "q = Some day" and "day \<noteq> []" and "CHR 0x00 \<notin> set day" and "CHR 0x00 \<notin> set uid"
  shows "\<exists>R. daily e now_ms uid q s = Inr R \<and> d_date R = day \<and>
     totalSeconds (d_totals R) = sum_list (map ur_total_seconds
         (filter (\<lambda>r. ur_user_id r = uid \<and> ur_date r = day) (usage_records s))) \<and>
     totalVisits (d_totals R) = sum_list (map ur_visits
         (filter (\<lambda>r. ur_user_id r = uid \<and> ur_date r = day) (usage_records s))) \<and>
     totalDomains (d_totals R) = int (card (ur_domain ` {r \<in> set
         (usage_records s). ur_user_id r = uid \<and> ur_date r = day})) \<and>
     d_screenshotCount R =
       int (length (filter (\<lambda>x. ss_user_id x = uid \<and>
           ss_date x = day) (screenshots s))) \<and>
     distinct (map (\<lambda>x. (sr_domain x, sr_title x, sr_category x)) (d_sites R)) \<and>
     (\<forall>x \<in> set (d_sites R).
        (\<exists>r \<in> set (usage_records s). ur_user_id r = uid \<and> ur_date r = day \<and>
            ur_domain r = sr_domain x \<and> ur_title r = sr_title x \<and>
            ur_category r = sr_category x) \<and>
        sr_total_seconds x = bigint_text (sum_list (map ur_total_seconds
            (filter (\<lambda>r. ur_user_id r = uid \<and> ur_date r = day \<and>
            ur_domain r = sr_domain x \<and> ur_title r = sr_title x \<and>
            ur_category r = sr_category x) (usage_records s)))) \<and>
        sr_visits x = bigint_text (sum_list (map ur_visits
            (filter (\<lambda>r. ur_user_id r = uid \<and> ur_date r = day \<and>
            ur_domain r = sr_domain x \<and> ur_title r = sr_title x \<and>
            ur_category r = sr_category x) (usage_records s))))) \<and>
     (\<forall>r \<in> set (usage_records s). ur_user_id r = uid \<and>
         ur_date r = day \<longrightarrow>
        (\<exists>x \<in> set (d_sites R). ur_domain r = sr_domain x \<and>
            ur_title r = sr_title x \<and> ur_category r = sr_category x)) \<and>
     (\<exists>ns. map sr_total_seconds (d_sites R) = map bigint_text ns \<and>
         sorted_wrt (\<lambda>a b. b \<le> a) ns) \<and>
     distinct (map cr_category (d_categories R)) \<and>
     (\<forall>x \<in> set (d_categories R).
        (\<exists>r \<in> set (usage_records s). ur_user_id r = uid \<and> ur_date r = day \<and>
            ur_category r = cr_category x) \<and>
        cr_total_seconds x = bigint_text (sum_list (map ur_total_seconds
            (filter (\<lambda>r. ur_user_id r = uid \<and> ur_date r = day \<and>
            ur_category r = cr_category x) (usage_records s)))) \<and>
        cr_total_visits x = bigint_text (sum_list (map ur_visits
            (filter (\<lambda>r. ur_user_id r = uid \<and> ur_date r = day \<and>
            ur_category r = cr_category x) (usage_records s)))) \<and>
        cr_sites x = bigint_text (int (card (ur_domain ` {r \<in> set
            (usage_records s). ur_user_id r = uid \<and> ur_date r = day \<and>
            ur_category r = cr_category x})))) \<and>
     (\<forall>r \<in> set (usage_records s). ur_user_id r = uid \<and>
         ur_date r = day \<longrightarrow>
        (\<exists>x \<in> set (d_categories R). ur_category r = cr_category x)) \<and>
     (\<exists>ns. map cr_total_seconds (d_categories R) = map bigint_text ns \<and>
         sorted_wrt (\<lambda>a b. b \<le> a) ns) \<and>
     distinct (map (\<lambda>x. (dr_device_name x, dr_device_type x)) (d_deviceBreakdown R)) \<and>
     (\<forall>x \<in> set (d_deviceBreakdown R).
        (\<exists>j \<in> set (List.product
            (usage_records s) (devices s)). (ur_user_id (fst j) = uid \<and>
            ur_date (fst j) = day) \<and> ur_device_id (fst j) = dev_id (snd j) \<and>
            dev_device_name (snd j) = dr_device_name x \<and>
            dev_device_type (snd j) = dr_device_type x) \<and>
        dr_total_seconds x = bigint_text
            (sum_list (map (\<lambda>j. ur_total_seconds (fst j))
            (filter (\<lambda>j. (ur_user_id (fst j) = uid \<and> ur_date (fst j) = day) \<and>
            ur_device_id (fst j) = dev_id (snd j) \<and>
            dev_device_name (snd j) = dr_device_name x \<and>
            dev_device_type (snd j) = dr_device_type x) (List.product
            (usage_records s) (devices s))))) \<and>
        dr_total_visits x = bigint_text (sum_list (map (\<lambda>j. ur_visits (fst j))
            (filter (\<lambda>j. (ur_user_id (fst j) = uid \<and> ur_date (fst j) = day) \<and>
            ur_device_id (fst j) = dev_id (snd j) \<and>
            dev_device_name (snd j) = dr_device_name x \<and>
            dev_device_type (snd j) = dr_device_type x) (List.product
            (usage_records s) (devices s))))) \<and>
        dr_domains x = bigint_text (int (card ((\<lambda>j. ur_domain (fst j)) `
            {j \<in> set (List.product
            (usage_records s) (devices s)). (ur_user_id (fst j) = uid \<and>
            ur_date (fst j) = day) \<and> ur_device_id (fst j) = dev_id (snd j) \<and>
            dev_device_name (snd j) = dr_device_name x \<and>
            dev_device_type (snd j) = dr_device_type x})))) \<and>
     (\<forall>j \<in> set (List.product
         (usage_records s) (devices s)). (ur_user_id (fst j) = uid \<and>
         ur_date (fst j) = day) \<and> ur_device_id (fst j) = dev_id (snd j) \<longrightarrow>
        (\<exists>x \<in> set (d_deviceBreakdown R). dev_device_name (snd j) = dr_device_name x \<and> dev_device_type (snd j) = dr_device_type x)) \<and>
     ((\<forall>r \<in> set (usage_records s). \<not> (ur_user_id r = uid \<and>
         ur_date r = day)) \<longrightarrow>
        d_totals R = \<lparr>totalSeconds = 0, totalVisits = 0, totalDomains = 0\<rparr> \<and>
        d_sites R = [] \<and> d_categories R = [] \<and> d_deviceBreakdown R = [])"
proof -
  let ?T = "usage_records s"
  let ?W = "\<lambda>r. ur_user_id r = uid \<and> ur_date r = day"
  let ?rows = "records_on uid day ?T"
  let ?J = "List.product (usage_records s) (devices s)"
  let ?WJ = "\<lambda>j. (ur_user_id (fst j) = uid \<and> ur_date (fst j) = day) \<and>
      ur_device_id (fst j) = dev_id (snd j)"
  let ?ks = "\<lambda>r. (ur_domain r, ur_title r, ur_category r)"
  let ?kd = "\<lambda>j. (dev_device_name (snd j), dev_device_type (snd j))"
  let ?R = "\<lparr>d_date = day, d_sites = daily_sites e ?rows, d_totals = daily_totals_of ?rows,
      d_categories = daily_categories e ?rows,
      d_deviceBreakdown = daily_devices e ?rows (devices s),
      d_screenshotCount = or_default (parseInt (bigint_text (int (length
         (screenshots_on uid day (screenshots s)))))) 0\<rparr>"
  have R: "daily e now_ms uid q s = Inr ?R"
    using assms by (simp add: daily_def text_param_def)
  have rows: "?rows = filter ?W ?T"
    by (simp add: records_on_def)
  have t1: "totalSeconds (daily_totals_of ?rows) = sum_list (map ur_total_seconds
      (filter (\<lambda>r. ur_user_id r = uid \<and> ur_date r = day) (usage_records s)))"
    by (simp add: daily_totals_of_def parseInt_bigint_text or_default_0 coalesce_0_sum rows)
  have t2: "totalVisits (daily_totals_of ?rows) = sum_list (map ur_visits
      (filter (\<lambda>r. ur_user_id r = uid \<and> ur_date r = day) (usage_records s)))"
    by (simp add: daily_totals_of_def parseInt_bigint_text or_default_0 coalesce_0_sum rows)
  have t3: "totalDomains (daily_totals_of ?rows) = int (card (ur_domain `
      {r \<in> set (usage_records s). ur_user_id r = uid \<and> ur_date r = day}))"
    unfolding rows by (simp add: daily_totals_of_def parseInt_bigint_text or_default_0 count_distinct_card)
  have t4: "or_default (parseInt (bigint_text (int (length
         (screenshots_on uid day (screenshots s)))))) 0 =
       int (length (filter (\<lambda>x. ss_user_id x = uid \<and>
           ss_date x = day) (screenshots s)))"
    by (simp add: parseInt_bigint_text or_default_0 screenshots_on_def)

  have S: "daily_sites e ?rows =
           map site_of (order_by_desc e (\<lambda>g. seconds_of (snd g)) (group_by ?ks
               (filter ?W ?T)))"
    by (simp add: daily_sites_def rows)
  note gs = grouped_rows [OF S set_order_by_desc]
  have s1: "distinct (map (\<lambda>x. (sr_domain x, sr_title x, sr_category x)) (daily_sites e ?rows))"
    by (rule grouped_distinct [OF S mset_order_by_desc]) (simp add: site_of_def)
  have s2: "\<forall>x \<in> set (daily_sites e ?rows).
        (\<exists>r \<in> set (usage_records s). ur_user_id r = uid \<and> ur_date r = day \<and>
            ur_domain r = sr_domain x \<and> ur_title r = sr_title x \<and>
            ur_category r = sr_category x) \<and>
        sr_total_seconds x = bigint_text (sum_list (map ur_total_seconds
            (filter (\<lambda>r. ur_user_id r = uid \<and> ur_date r = day \<and>
            ur_domain r = sr_domain x \<and> ur_title r = sr_title x \<and>
            ur_category r = sr_category x) (usage_records s)))) \<and>
        sr_visits x = bigint_text (sum_list (map ur_visits
            (filter (\<lambda>r. ur_user_id r = uid \<and> ur_date r = day \<and>
            ur_domain r = sr_domain x \<and> ur_title r = sr_title x \<and>
            ur_category r = sr_category x) (usage_records s))))"
  proof
    fix x assume "x \<in> set (daily_sites e ?rows)"
    with gs(1) obtain k where x: "x = site_of (k, filter (\<lambda>r. ?W r \<and> ?ks r = k) ?T)"
      and ex: "\<exists>r \<in> set ?T. ?W r \<and> ?ks r = k" by blast
    have kx: "sr_domain x = fst k" "sr_title x = fst (snd k)" "sr_category x = snd (snd k)"
      by (simp_all add: x site_of_def)
    have keq: "\<And>r. (?ks r = k) = (ur_domain r = fst k \<and> ur_title r = fst (snd k) \<and>
        ur_category r = snd (snd k))"
      by (cases k) auto
    have f: "sr_total_seconds x = bigint_text (seconds_of (filter (\<lambda>r. ?W r \<and>
        ?ks r = k) ?T))"
      "sr_visits x = bigint_text (visits_of (filter (\<lambda>r. ?W r \<and> ?ks r = k) ?T))"
      by (simp_all add: x site_of_def)
    show "(\<exists>r \<in> set (usage_records s). ur_user_id r = uid \<and> ur_date r = day \<and>
        ur_domain r = sr_domain x \<and> ur_title r = sr_title x \<and>
        ur_category r = sr_category x) \<and>
        sr_total_seconds x = bigint_text (sum_list (map ur_total_seconds
            (filter (\<lambda>r. ur_user_id r = uid \<and> ur_date r = day \<and>
            ur_domain r = sr_domain x \<and> ur_title r = sr_title x \<and>
            ur_category r = sr_category x) (usage_records s)))) \<and>
        sr_visits x = bigint_text (sum_list (map ur_visits
            (filter (\<lambda>r. ur_user_id r = uid \<and> ur_date r = day \<and>
            ur_domain r = sr_domain x \<and> ur_title r = sr_title x \<and>
            ur_category r = sr_category x) (usage_records s))))"
      unfolding f kx using ex unfolding keq seconds_of_def visits_of_def by (simp add: conj_assoc)
  qed
  have s3: "\<forall>r \<in> set (usage_records s). ur_user_id r = uid \<and>
      ur_date r = day \<longrightarrow>
        (\<exists>x \<in> set (daily_sites e ?rows). ur_domain r = sr_domain x \<and>
            ur_title r = sr_title x \<and> ur_category r = sr_category x)"
  proof (intro ballI impI)
    fix r assume "r \<in> set ?T" and "?W r"
    with gs(2) have "site_of (?ks r, filter (\<lambda>r'. ?W r' \<and>
        ?ks r' = ?ks r) ?T) \<in> set (daily_sites e ?rows)"
      by blast
    then show "\<exists>x \<in> set (daily_sites e ?rows).
        ur_domain r = sr_domain x \<and> ur_title r = sr_title x \<and>
            ur_category r = sr_category x"
      by (rule rev_bexI) (simp add: site_of_def)
  qed
  have s4: "\<exists>ns. map sr_total_seconds (daily_sites e ?rows) = map bigint_text ns \<and>
      sorted_wrt (\<lambda>a b. b \<le> a) ns"
    by (rule ranked_texts [OF S]) (simp add: site_of_def)

  have C: "daily_categories e ?rows =
           map category_of (order_by_desc e (\<lambda>g. seconds_of (snd g)) (group_by ur_category (filter ?W ?T)))"
    by (simp add: daily_categories_def rows)
  note gc = grouped_rows [OF C set_order_by_desc]
  have c1: "distinct (map cr_category (daily_categories e ?rows))"
    by (rule grouped_distinct [OF C mset_order_by_desc]) (simp add: category_of_def)
  have c2: "\<forall>x \<in> set (daily_categories e ?rows).
        (\<exists>r \<in> set (usage_records s). ur_user_id r = uid \<and> ur_date r = day \<and>
            ur_category r = cr_category x) \<and>
        cr_total_seconds x = bigint_text (sum_list (map ur_total_seconds
            (filter (\<lambda>r. ur_user_id r = uid \<and> ur_date r = day \<and>
            ur_category r = cr_category x) (usage_records s)))) \<and>
        cr_total_visits x = bigint_text (sum_list (map ur_visits
            (filter (\<lambda>r. ur_user_id r = uid \<and> ur_date r = day \<and>
            ur_category r = cr_category x) (usage_records s)))) \<and>
        cr_sites x = bigint_text (int (card (ur_domain ` {r \<in> set
            (usage_records s). ur_user_id r = uid \<and> ur_date r = day \<and>
            ur_category r = cr_category x})))"
  proof
    fix x assume "x \<in> set (daily_categories e ?rows)"
    with gc(1) obtain k where x: "x = category_of (k, filter (\<lambda>r. ?W r \<and>
        ur_category r = k) ?T)"
      and ex: "\<exists>r \<in> set ?T. ?W r \<and> ur_category r = k" by blast
    have kx: "cr_category x = k"
      by (simp add: x category_of_def)
    have f: "cr_total_seconds x = bigint_text (seconds_of (filter (\<lambda>r. ?W r \<and>
        ur_category r = k) ?T))"
      "cr_total_visits x = bigint_text (visits_of (filter (\<lambda>r. ?W r \<and>
          ur_category r = k) ?T))"
      "cr_sites x = bigint_text (int (card (ur_domain ` {r \<in> set ?T. ?W r \<and>
          ur_category r = k})))"
      by (simp_all add: x category_of_def count_distinct_card)
    show "(\<exists>r \<in> set (usage_records s). ur_user_id r = uid \<and> ur_date r = day \<and>
        ur_category r = cr_category x) \<and>
        cr_total_seconds x = bigint_text (sum_list (map ur_total_seconds
            (filter (\<lambda>r. ur_user_id r = uid \<and> ur_date r = day \<and>
            ur_category r = cr_category x) (usage_records s)))) \<and>
        cr_total_visits x = bigint_text (sum_list (map ur_visits
            (filter (\<lambda>r. ur_user_id r = uid \<and> ur_date r = day \<and>
            ur_category r = cr_category x) (usage_records s)))) \<and>
        cr_sites x = bigint_text (int (card (ur_domain ` {r \<in> set
            (usage_records s). ur_user_id r = uid \<and> ur_date r = day \<and>
            ur_category r = cr_category x})))"
      unfolding f kx using ex unfolding seconds_of_def visits_of_def by (simp add: conj_assoc)
  qed
  have c3: "\<forall>r \<in> set (usage_records s). ur_user_id r = uid \<and>
      ur_date r = day \<longrightarrow>
        (\<exists>x \<in> set (daily_categories e ?rows). ur_category r = cr_category x)"
  proof (intro ballI impI)
    fix r assume "r \<in> set ?T" and "?W r"
    with gc(2) have "category_of (ur_category r, filter (\<lambda>r'. ?W r' \<and>
        ur_category r' = ur_category r) ?T)
        \<in> set (daily_categories e ?rows)"
      by blast
    then show "\<exists>x \<in> set (daily_categories e ?rows). ur_category r = cr_category x"
      by (rule rev_bexI) (simp add: category_of_def)
  qed
  have c4: "\<exists>ns. map cr_total_seconds (daily_categories e ?rows) = map bigint_text ns \<and> sorted_wrt (\<lambda>a b. b \<le> a) ns"
    by (rule ranked_texts [OF C]) (simp add: category_of_def)

  have D: "daily_devices e ?rows (devices s) =
           map device_of (arranged e (group_by ?kd (filter ?WJ ?J)))"
    by (simp add: daily_devices_def rows join_devices_product)
  note gd = grouped_rows [OF D set_arranged]
  have d1: "distinct (map (\<lambda>x. (dr_device_name x, dr_device_type x)) (daily_devices e ?rows (devices s)))"
    by (rule grouped_distinct [OF D mset_arranged]) (simp add: device_of_def)
  have d2: "\<forall>x \<in> set (daily_devices e ?rows (devices s)).
        (\<exists>j \<in> set (List.product
            (usage_records s) (devices s)). (ur_user_id (fst j) = uid \<and>
            ur_date (fst j) = day) \<and> ur_device_id (fst j) = dev_id (snd j) \<and>
            dev_device_name (snd j) = dr_device_name x \<and>
            dev_device_type (snd j) = dr_device_type x) \<and>
        dr_total_seconds x = bigint_text
            (sum_list (map (\<lambda>j. ur_total_seconds (fst j))
            (filter (\<lambda>j. (ur_user_id (fst j) = uid \<and> ur_date (fst j) = day) \<and>
            ur_device_id (fst j) = dev_id (snd j) \<and>
            dev_device_name (snd j) = dr_device_name x \<and>
            dev_device_type (snd j) = dr_device_type x) (List.product
            (usage_records s) (devices s))))) \<and>
        dr_total_visits x = bigint_text (sum_list (map (\<lambda>j. ur_visits (fst j))
            (filter (\<lambda>j. (ur_user_id (fst j) = uid \<and> ur_date (fst j) = day) \<and>
            ur_device_id (fst j) = dev_id (snd j) \<and>
            dev_device_name (snd j) = dr_device_name x \<and>
            dev_device_type (snd j) = dr_device_type x) (List.product
            (usage_records s) (devices s))))) \<and>
        dr_domains x = bigint_text (int (card ((\<lambda>j. ur_domain (fst j)) `
            {j \<in> set (List.product
            (usage_records s) (devices s)). (ur_user_id (fst j) = uid \<and>
            ur_date (fst j) = day) \<and> ur_device_id (fst j) = dev_id (snd j) \<and>
            dev_device_name (snd j) = dr_device_name x \<and>
            dev_device_type (snd j) = dr_device_type x})))"
  proof
    fix x assume "x \<in> set (daily_devices e ?rows (devices s))"
    with gd(1) obtain k where x: "x = device_of (k, filter (\<lambda>j. ?WJ j \<and> ?kd j = k) ?J)"
      and ex: "\<exists>j \<in> set ?J. ?WJ j \<and> ?kd j = k" by blast
    have kx: "dr_device_name x = fst k" "dr_device_type x = snd k"
      by (simp_all add: x device_of_def)
    have keq: "\<And>j. (?kd j = k) = (dev_device_name (snd j) = fst k \<and>
        dev_device_type (snd j) = snd k)"
      by (cases k) auto
    have f: "dr_total_seconds x =
        bigint_text (sum_list (map (\<lambda>j. ur_total_seconds (fst j))
            (filter (\<lambda>j. ?WJ j \<and> ?kd j = k) ?J)))"
      "dr_total_visits x =
        bigint_text (sum_list (map (\<lambda>j. ur_visits (fst j))
            (filter (\<lambda>j. ?WJ j \<and> ?kd j = k) ?J)))"
      "dr_domains x =
        bigint_text (int (card ((\<lambda>j. ur_domain (fst j)) ` {j \<in> set ?J. ?WJ j \<and>
            ?kd j = k})))"
      by (simp_all add: x device_of_def seconds_of_def visits_of_def comp_def count_distinct_card)
    show "(\<exists>j \<in> set (List.product
        (usage_records s) (devices s)). (ur_user_id (fst j) = uid \<and>
        ur_date (fst j) = day) \<and> ur_device_id (fst j) = dev_id (snd j) \<and>
        dev_device_name (snd j) = dr_device_name x \<and>
        dev_device_type (snd j) = dr_device_type x) \<and>
        dr_total_seconds x = bigint_text
            (sum_list (map (\<lambda>j. ur_total_seconds (fst j))
            (filter (\<lambda>j. (ur_user_id (fst j) = uid \<and> ur_date (fst j) = day) \<and>
            ur_device_id (fst j) = dev_id (snd j) \<and>
            dev_device_name (snd j) = dr_device_name x \<and>
            dev_device_type (snd j) = dr_device_type x) (List.product
            (usage_records s) (devices s))))) \<and>
        dr_total_visits x = bigint_text (sum_list (map (\<lambda>j. ur_visits (fst j))
            (filter (\<lambda>j. (ur_user_id (fst j) = uid \<and> ur_date (fst j) = day) \<and>
            ur_device_id (fst j) = dev_id (snd j) \<and>
            dev_device_name (snd j) = dr_device_name x \<and>
            dev_device_type (snd j) = dr_device_type x) (List.product
            (usage_records s) (devices s))))) \<and>
        dr_domains x = bigint_text (int (card ((\<lambda>j. ur_domain (fst j)) `
            {j \<in> set (List.product
            (usage_records s) (devices s)). (ur_user_id (fst j) = uid \<and>
            ur_date (fst j) = day) \<and> ur_device_id (fst j) = dev_id (snd j) \<and>
            dev_device_name (snd j) = dr_device_name x \<and>
            dev_device_type (snd j) = dr_device_type x})))"
      unfolding f kx using ex unfolding keq by (simp add: conj_assoc)
  qed
  have d3: "\<forall>j \<in> set (List.product
      (usage_records s) (devices s)). (ur_user_id (fst j) = uid \<and>
      ur_date (fst j) = day) \<and> ur_device_id (fst j) = dev_id (snd j) \<longrightarrow>
        (\<exists>x \<in> set (daily_devices e ?rows (devices s)). dev_device_name (snd j) = dr_device_name x \<and> dev_device_type (snd j) = dr_device_type x)"
  proof (intro ballI impI)
    fix j assume "j \<in> set ?J" and "?WJ j"
    with gd(2) have "device_of (?kd j, filter (\<lambda>j'. ?WJ j' \<and> ?kd j' = ?kd j) ?J)
        \<in> set (daily_devices e ?rows (devices s))"
      by blast
    then show "\<exists>x \<in> set (daily_devices e ?rows (devices s)).
        dev_device_name (snd j) = dr_device_name x \<and>
            dev_device_type (snd j) = dr_device_type x"
      by (rule rev_bexI) (simp add: device_of_def)
  qed

  have empty: "(\<forall>r \<in> set (usage_records s). \<not> (ur_user_id r = uid \<and>
      ur_date r = day)) \<longrightarrow>
        daily_totals_of ?rows = \<lparr>totalSeconds = 0, totalVisits = 0, totalDomains = 0\<rparr> \<and>
        daily_sites e ?rows = [] \<and> daily_categories e ?rows = [] \<and>
        daily_devices e ?rows (devices s) = []"
  proof
    assume "\<forall>r \<in> set (usage_records s). \<not> (ur_user_id r = uid \<and>
        ur_date r = day)"
    then have n: "?rows = []" unfolding rows by (simp add: filter_empty_conv)
    have a: "\<And>xs :: (string \<times> string) list. xs = [] \<Longrightarrow> xs = []" by simp
    have z: "parseInt (bigint_text 0) = Some 0" by (rule parseInt_bigint_text)
    show "daily_totals_of ?rows = \<lparr>totalSeconds = 0, totalVisits = 0, totalDomains = 0\<rparr> \<and>
        daily_sites e ?rows = [] \<and> daily_categories e ?rows = [] \<and>
        daily_devices e ?rows (devices s) = []"
      unfolding n
      by (simp add: daily_totals_of_def daily_sites_def daily_categories_def daily_devices_def
            join_devices_def group_by_def order_by_desc_def arranged_Nil
            sql_sum_def coalesce_0_def or_default_def count_distinct_def z)
  qed
  show ?thesis
    apply (rule exI [of _ ?R])
    apply (simp only: R daily_response.simps t4)
    using t1 t2 t3 s1 s2 s3 s4 c1 c2 c3 c4 d1 d2 d3 empty
    apply (intro conjI)
    apply (rule refl | assumption)+
    done
qed

theorem daily_totals_and_rows_witness:
  "\<exists>R. daily example_env 1705320000000 ''user-1'' (Some ''2024-01-01'') two_days_db = Inr R \<and>
       totalSeconds (d_totals R) = 400 \<and> totalVisits (d_totals R) = 6 \<and>
       totalDomains (d_totals R) = 2 \<and> d_screenshotCount R = 0 \<and>
       d_sites R =
         [\<lparr>sr_domain = ''news.org'', sr_title = Some ''News'', sr_category = Some ''Other'',
           sr_total_seconds = ''300'', sr_visits = ''4''\<rparr>,
          \<lparr>sr_domain = ''example.com'', sr_title = Some ''Example Domain'', sr_category = Some ''Other'',
           sr_total_seconds = ''100'', sr_visits = ''2''\<rparr>] \<and>
       d_categories R =
         [\<lparr>cr_category = Some ''Other'', cr_total_seconds = ''400'', cr_total_visits = ''6'',
           cr_sites = ''2''\<rparr>] \<and>
       d_deviceBreakdown R =
         [\<lparr>dr_device_name = ''laptop'', dr_device_type = ''chrome'', dr_total_seconds = ''400'',
           dr_total_visits = ''6'', dr_domains = ''2''\<rparr>]"
proof -
  let ?R = "\<lparr>d_date = ''2024-01-01'',
      d_sites =
         [\<lparr>sr_domain = ''news.org'', sr_title = Some ''News'', sr_category = Some ''Other'',
           sr_total_seconds = ''300'', sr_visits = ''4''\<rparr>,
          \<lparr>sr_domain = ''example.com'', sr_title = Some ''Example Domain'', sr_category = Some ''Other'',
           sr_total_seconds = ''100'', sr_visits = ''2''\<rparr>],
      d_totals = \<lparr>totalSeconds = 400, totalVisits = 6, totalDomains = 2\<rparr>,
      d_categories =
         [\<lparr>cr_category = Some ''Other'', cr_total_seconds = ''400'', cr_total_visits = ''6'',
           cr_sites = ''2''\<rparr>],
      d_deviceBreakdown =
         [\<lparr>dr_device_name = ''laptop'', dr_device_type = ''chrome'', dr_total_seconds = ''400'',
           dr_total_visits = ''6'', dr_domains = ''2''\<rparr>],
      d_screenshotCount = 0\<rparr>"
  have ev: "daily example_env 1705320000000 ''user-1'' (Some ''2024-01-01'') two_days_db = Inr ?R"
    by code_simp
  have sum: "sum_list (map ur_total_seconds
         (filter (\<lambda>r. ur_user_id r = ''user-1'' \<and> ur_date r = ''2024-01-01'') (usage_records two_days_db))) = 400"
    "sum_list (map ur_visits
         (filter (\<lambda>r. ur_user_id r = ''user-1'' \<and> ur_date r = ''2024-01-01'') (usage_records two_days_db))) = 6"
    by code_simp+
  have n: "''2024-01-01'' \<noteq> []" "CHR 0x00 \<notin> set ''2024-01-01''" "CHR 0x00 \<notin> set ''user-1''"
    by simp_all
  from daily_totals_and_rows [OF refl n, of example_env 1705320000000 two_days_db]
  obtain R where R: "daily example_env 1705320000000 ''user-1'' (Some ''2024-01-01'') two_days_db = Inr R"
    and tot: "totalSeconds (d_totals R) = 400" "totalVisits (d_totals R) = 6"
    unfolding sum by (elim exE conjE) 
  from R ev have "R = ?R" by simp
  with R tot show ?thesis by simp
qed

text \<open>
  Claim C8 as stated fails on the code: the ranking is of the groups
  (domain, title, category), not of the domains. A domain seen under two titles is two
  rows; here \<^verbatim>\<open>a.com\<close> has 600 seconds in the period, more than \<^verbatim>\<open>b.com\<close> with 500,
  and \<^verbatim>\<open>b.com\<close> is the one row returned for limit 1.
\<close>

theorem top_domains_splits_domain_by_title:
  "top_domains example_env 1705320000000 ''user-1'' (Some 7) (Some 1) two_titles_db =
     Inr \<lparr>t_domains = [\<lparr>td_domain = ''b.com'', td_title = Some ''B'', td_category = Some ''Other'',
                         td_total_seconds = ''500'', td_total_visits = ''5'', td_active_days = ''1''\<rparr>],
          t_period = 7\<rparr> \<and>
   iso_day example_env (1705320000000 - 7 * 86400000) = Some ''2024-01-08'' \<and>
   domain_seconds_in_period ''user-1'' ''2024-01-08'' ''a.com'' (usage_records two_titles_db) = 600 \<and>
   domain_seconds_in_period ''user-1'' ''2024-01-08'' ''b.com'' (usage_records two_titles_db) = 500"
  by code_simp

text \<open>
  Claim C8, amended. The period is the requested one capped at 90 days, 7 when none is
  requested. The rows are groups (domain, title, category) of the user's records dated on
  or after the first day of the period, no group twice; their number is the requested limit
  capped at 100, 20 when none is requested, or the number of groups when that is less. Each
  row carries as decimal texts the sum of the total seconds, the sum of the visits and the
  number of different dates of its group. The rows are ordered by total seconds descending,
  and every group left out has at most the total seconds of each row returned. With 500
  and 300 seconds for two domains and limit 1, the row returned is the one of 500 seconds.
\<close>

theorem top_domains_groups_ranked:
  assumes "top_domains e now_ms uid period limit s = Inr R"
  shows "t_period R = min (case period of None \<Rightarrow> 7 | Some n \<Rightarrow> if n = 0 then 7 else n) 90 \<and>
     (\<exists>since. iso_day e (now_ms - t_period R * 86400000) = Some since \<and>
        length (t_domains R) =
          min (nat (min (case limit of None \<Rightarrow> 20 | Some n \<Rightarrow> if n = 0 then 20 else n) 100))
              (card ((\<lambda>r. (ur_domain r, ur_title r, ur_category r)) `
                       {r \<in> set (usage_records s). ur_user_id r = uid \<and> since \<le> ur_date r})) \<and>
        distinct (map (\<lambda>x. (td_domain x, td_title x, td_category x)) (t_domains R)) \<and>
        (\<forall>x \<in> set (t_domains R).
           (\<exists>r \<in> set (usage_records s). ur_user_id r = uid \<and> since \<le> ur_date r \<and>
              ur_domain r = td_domain x \<and> ur_title r = td_title x \<and> ur_category r = td_category x) \<and>
           td_total_seconds x = bigint_text (sum_list (map ur_total_seconds
               (filter (\<lambda>r. ur_user_id r = uid \<and> since \<le> ur_date r \<and>
                             ur_domain r = td_domain x \<and> ur_title r = td_title x \<and> ur_category r = td_category x)
                  (usage_records s)))) \<and>
           td_total_visits x = bigint_text (sum_list (map ur_visits
               (filter (\<lambda>r. ur_user_id r = uid \<and> since \<le> ur_date r \<and>
                             ur_domain r = td_domain x \<and> ur_title r = td_title x \<and> ur_category r = td_category x)
                  (usage_records s)))) \<and>
           td_active_days x =
             bigint_text (int (card (ur_date ` {r \<in> set (usage_records s).
                      ur_user_id r = uid \<and> since \<le> ur_date r \<and> ur_domain r = td_domain x \<and>
                      ur_title r = td_title x \<and> ur_category r = td_category x})))) \<and>
        (\<exists>ns. map td_total_seconds (t_domains R) = map bigint_text ns \<and>
              sorted_wrt (\<lambda>a b. b \<le> a) ns) \<and>
        (\<forall>r \<in> set (usage_records s). ur_user_id r = uid \<and> since \<le> ur_date r \<longrightarrow>
           (\<exists>x \<in> set (t_domains R).
              td_domain x = ur_domain r \<and> td_title x = ur_title r \<and> td_category x = ur_category r) \<or>
           (\<forall>x \<in> set (t_domains R).
              sum_list (map ur_total_seconds
                (filter (\<lambda>r'. ur_user_id r' = uid \<and> since \<le> ur_date r' \<and> ur_domain r' = ur_domain r \<and>
                              ur_title r' = ur_title r \<and> ur_category r' = ur_category r)
                   (usage_records s)))
              \<le> sum_list (map ur_total_seconds
               (filter (\<lambda>r. ur_user_id r = uid \<and> since \<le> ur_date r \<and>
                             ur_domain r = td_domain x \<and> ur_title r = td_title x \<and> ur_category r = td_category x)
                  (usage_records s))))))"
proof -
  let ?days = "min (or_default period 7) 90"
  let ?lim = "min (or_default limit 20) 100"
  let ?key = "\<lambda>r. (ur_domain r, ur_title r, ur_category r)"
  let ?T = "usage_records s"
  from assms obtain since where
    since: "iso_day e (now_ms - ?days * 86400000) = Some since"
    and R: "R = \<lparr>t_domains = map domain_of (take (nat ?lim)
                    (ranked_groups e (records_since uid since ?T))),
                 t_period = ?days\<rparr>"
    by (auto simp add: top_domains_def Let_def split: option.splits if_splits)
  let ?W = "\<lambda>r. ur_user_id r = uid \<and> since \<le> ur_date r"
  let ?G = "group_by ?key (filter ?W ?T)"
  let ?L = "ranked_groups e (records_since uid since ?T)"
  let ?top = "take (nat ?lim) ?L"
  have L: "?L = order_by_desc e (\<lambda>g. seconds_of (snd g)) ?G"
    by (simp add: ranked_groups_def records_since_def)
  have setL: "set ?L = set ?G" unfolding L by (rule set_order_by_desc)
  have per: "t_period R = ?days" by (simp add: R)
  have dom: "t_domains R = map domain_of ?top" by (simp add: R)
  have od: "\<And>v d. or_default v d = (case v of None \<Rightarrow> d | Some n \<Rightarrow> if n = 0 then d else n)"
    by (simp add: or_default_def)
  have len: "length (t_domains R) = min (nat ?lim) (card (?key ` {r \<in> set ?T. ?W r}))"
    unfolding dom L
    by (simp add: length_order_by_desc group_by_def card_keys)
  have keys: "map (\<lambda>x. (td_domain x, td_title x, td_category x)) (map domain_of ?top) =
              take (nat ?lim) (map fst ?L)"
    by (simp add: take_map comp_def domain_of_def)
  have "distinct (map fst ?L)"
    unfolding L distinct_map_order_by_desc by (rule distinct_group_by)
  then have dist: "distinct (map (\<lambda>x. (td_domain x, td_title x, td_category x)) (t_domains R))"
    unfolding dom keys by (rule distinct_take)
  have grp: "\<And>k g. (k, g) \<in> set ?L \<Longrightarrow>
      g = filter (\<lambda>r. ?W r \<and> ur_domain r = fst k \<and> ur_title r = fst (snd k) \<and>
                      ur_category r = snd (snd k)) ?T \<and>
      (\<exists>r \<in> set ?T. ?W r \<and> ur_domain r = fst k \<and> ur_title r = fst (snd k) \<and>
                      ur_category r = snd (snd k))"
  proof -
    fix k g assume "(k, g) \<in> set ?L"
    then have m: "(k, g) \<in> set ?G" unfolding setL .
    have e: "\<And>r. (?key r = k) = (ur_domain r = fst k \<and> ur_title r = fst (snd k) \<and>
                      ur_category r = snd (snd k))"
      by (cases k) auto
    from group_rows [OF m] show "g = filter (\<lambda>r. ?W r \<and> ur_domain r = fst k \<and> ur_title r = fst (snd k) \<and>
                      ur_category r = snd (snd k)) ?T \<and>
      (\<exists>r \<in> set ?T. ?W r \<and> ur_domain r = fst k \<and> ur_title r = fst (snd k) \<and>
                      ur_category r = snd (snd k))"
      unfolding e by (simp add: conj_assoc)
  qed
  have row: "\<And>x. x \<in> set (t_domains R) \<Longrightarrow>
      \<exists>k g. (k, g) \<in> set ?top \<and>
        td_domain x = fst k \<and> td_title x = fst (snd k) \<and> td_category x = snd (snd k) \<and>
        td_total_seconds x = bigint_text (sum_list (map ur_total_seconds g)) \<and>
        td_total_visits x = bigint_text (sum_list (map ur_visits g)) \<and>
        td_active_days x = bigint_text (int (count_distinct (map ur_date g)))"
  proof -
    fix x assume "x \<in> set (t_domains R)"
    then obtain kg where kg: "kg \<in> set ?top" and x: "x = domain_of kg" unfolding dom by auto
    obtain k g where c: "kg = (k, g)" by (cases kg)
    show "\<exists>k g. (k, g) \<in> set ?top \<and>
        td_domain x = fst k \<and> td_title x = fst (snd k) \<and> td_category x = snd (snd k) \<and>
        td_total_seconds x = bigint_text (sum_list (map ur_total_seconds g)) \<and>
        td_total_visits x = bigint_text (sum_list (map ur_visits g)) \<and>
        td_active_days x = bigint_text (int (count_distinct (map ur_date g)))"
      apply (rule exI [of _ k], rule exI [of _ g])
      using kg unfolding x c by (simp add: domain_of_def seconds_of_def visits_of_def)
  qed
  have rows: "\<forall>x \<in> set (t_domains R).
           (\<exists>r \<in> set (usage_records s). ur_user_id r = uid \<and> since \<le> ur_date r \<and>
              ur_domain r = td_domain x \<and> ur_title r = td_title x \<and> ur_category r = td_category x) \<and>
           td_total_seconds x = bigint_text (sum_list (map ur_total_seconds
               (filter (\<lambda>r. ur_user_id r = uid \<and> since \<le> ur_date r \<and>
                             ur_domain r = td_domain x \<and> ur_title r = td_title x \<and> ur_category r = td_category x)
                  (usage_records s)))) \<and>
           td_total_visits x = bigint_text (sum_list (map ur_visits
               (filter (\<lambda>r. ur_user_id r = uid \<and> since \<le> ur_date r \<and>
                             ur_domain r = td_domain x \<and> ur_title r = td_title x \<and> ur_category r = td_category x)
                  (usage_records s)))) \<and>
           td_active_days x =
             bigint_text (int (card (ur_date ` {r \<in> set (usage_records s).
                      ur_user_id r = uid \<and> since \<le> ur_date r \<and> ur_domain r = td_domain x \<and>
                      ur_title r = td_title x \<and> ur_category r = td_category x})))"
  proof
    fix x assume "x \<in> set (t_domains R)"
    from row [OF this] obtain k g where
      m: "(k, g) \<in> set ?top"
      and kx: "td_domain x = fst k" "td_title x = fst (snd k)" "td_category x = snd (snd k)"
      and sel: "td_total_seconds x = bigint_text (sum_list (map ur_total_seconds g))"
        "td_total_visits x = bigint_text (sum_list (map ur_visits g))"
        "td_active_days x = bigint_text (int (count_distinct (map ur_date g)))"
      by blast
    from m have "(k, g) \<in> set ?L" by (rule in_set_takeD)
    note gr = grp [OF this]
    from gr have g: "g = filter (\<lambda>r. (ur_user_id r = uid \<and> since \<le> ur_date r) \<and> ur_domain r = fst k \<and>
                 ur_title r = fst (snd k) \<and> ur_category r = snd (snd k)) ?T" by blast
    from gr have ex: "\<exists>r \<in> set ?T. (ur_user_id r = uid \<and> since \<le> ur_date r) \<and> ur_domain r = fst k \<and>
                 ur_title r = fst (snd k) \<and> ur_category r = snd (snd k)" by blast
    have cd: "int (count_distinct (map ur_date g)) =
       int (card (ur_date ` {r \<in> set ?T. (ur_user_id r = uid \<and> since \<le> ur_date r) \<and> ur_domain r = fst k \<and>
                 ur_title r = fst (snd k) \<and> ur_category r = snd (snd k)}))"
      by (subst g) (rule count_distinct_card)
    show "(\<exists>r \<in> set (usage_records s). ur_user_id r = uid \<and> since \<le> ur_date r \<and>
              ur_domain r = td_domain x \<and> ur_title r = td_title x \<and> ur_category r = td_category x) \<and>
           td_total_seconds x = bigint_text (sum_list (map ur_total_seconds
               (filter (\<lambda>r. ur_user_id r = uid \<and> since \<le> ur_date r \<and>
                             ur_domain r = td_domain x \<and> ur_title r = td_title x \<and> ur_category r = td_category x)
                  (usage_records s)))) \<and>
           td_total_visits x = bigint_text (sum_list (map ur_visits
               (filter (\<lambda>r. ur_user_id r = uid \<and> since \<le> ur_date r \<and>
                             ur_domain r = td_domain x \<and> ur_title r = td_title x \<and> ur_category r = td_category x)
                  (usage_records s)))) \<and>
           td_active_days x =
             bigint_text (int (card (ur_date ` {r \<in> set (usage_records s).
                      ur_user_id r = uid \<and> since \<le> ur_date r \<and> ur_domain r = td_domain x \<and>
                      ur_title r = td_title x \<and> ur_category r = td_category x})))"
      unfolding sel cd kx using ex unfolding g by (simp add: conj_assoc)
  qed
  have srt: "\<exists>ns. map td_total_seconds (t_domains R) = map bigint_text ns \<and>
              sorted_wrt (\<lambda>a b. b \<le> a) ns"
  proof (rule exI [of _ "map (\<lambda>g. seconds_of (snd g)) ?top"], rule conjI)
    show "map td_total_seconds (t_domains R) = map bigint_text (map (\<lambda>g. seconds_of (snd g)) ?top)"
      by (simp add: dom domain_of_def comp_def)
    have "sorted_wrt (\<lambda>a b. seconds_of (snd b) \<le> seconds_of (snd a)) ?top"
      unfolding L by (rule sorted_wrt_take) (rule order_by_desc_sorted)
    then show "sorted_wrt (\<lambda>a b. b \<le> a) (map (\<lambda>g. seconds_of (snd g)) ?top)"
      by (simp add: sorted_wrt_map)
  qed
  have rank: "\<forall>r \<in> set (usage_records s). ur_user_id r = uid \<and> since \<le> ur_date r \<longrightarrow>
           (\<exists>x \<in> set (t_domains R).
              td_domain x = ur_domain r \<and> td_title x = ur_title r \<and> td_category x = ur_category r) \<or>
           (\<forall>x \<in> set (t_domains R).
              sum_list (map ur_total_seconds
                (filter (\<lambda>r'. ur_user_id r' = uid \<and> since \<le> ur_date r' \<and> ur_domain r' = ur_domain r \<and>
                              ur_title r' = ur_title r \<and> ur_category r' = ur_category r)
                   (usage_records s)))
              \<le> sum_list (map ur_total_seconds
               (filter (\<lambda>r. ur_user_id r = uid \<and> since \<le> ur_date r \<and>
                             ur_domain r = td_domain x \<and> ur_title r = td_title x \<and> ur_category r = td_category x)
                  (usage_records s))))"
  proof (intro ballI impI)
    fix r assume r: "r \<in> set (usage_records s)" and w: "ur_user_id r = uid \<and> since \<le> ur_date r"
    let ?g = "filter (\<lambda>r'. ?W r' \<and> ?key r' = ?key r) ?T"
    have gr: "?g = filter (\<lambda>r'. ur_user_id r' = uid \<and> since \<le> ur_date r' \<and> ur_domain r' = ur_domain r \<and>
                              ur_title r' = ur_title r \<and> ur_category r' = ur_category r) ?T"
      by (simp add: conj_assoc)
    from group_of_row [of r ?T ?W ?key, OF r w] have "(?key r, ?g) \<in> set ?L" unfolding setL .
    moreover have "set ?L = set ?top \<union> set (drop (nat ?lim) ?L)"
      by (simp only: set_append [symmetric] append_take_drop_id)
    ultimately have "(?key r, ?g) \<in> set ?top \<or> (?key r, ?g) \<in> set (drop (nat ?lim) ?L)"
      by (simp only: Un_iff)
    then show "(\<exists>x \<in> set (t_domains R).
              td_domain x = ur_domain r \<and> td_title x = ur_title r \<and> td_category x = ur_category r) \<or>
           (\<forall>x \<in> set (t_domains R).
              sum_list (map ur_total_seconds
                (filter (\<lambda>r'. ur_user_id r' = uid \<and> since \<le> ur_date r' \<and> ur_domain r' = ur_domain r \<and>
                              ur_title r' = ur_title r \<and> ur_category r' = ur_category r)
                   (usage_records s)))
              \<le> sum_list (map ur_total_seconds
               (filter (\<lambda>r. ur_user_id r = uid \<and> since \<le> ur_date r \<and>
                             ur_domain r = td_domain x \<and> ur_title r = td_title x \<and> ur_category r = td_category x)
                  (usage_records s))))"
    proof
      assume "(?key r, ?g) \<in> set ?top"
      then have "domain_of (?key r, ?g) \<in> set (t_domains R)" unfolding dom by simp
      then show ?thesis by (rule rev_bexI [THEN disjI1]) (simp add: domain_of_def)
    next
      assume d: "(?key r, ?g) \<in> set (drop (nat ?lim) ?L)"
      have "\<And>x. x \<in> set (t_domains R) \<Longrightarrow> sum_list (map ur_total_seconds ?g) \<le> sum_list (map ur_total_seconds
               (filter (\<lambda>r. ur_user_id r = uid \<and> since \<le> ur_date r \<and>
                             ur_domain r = td_domain x \<and> ur_title r = td_title x \<and> ur_category r = td_category x)
                  (usage_records s)))"
      proof -
        fix x assume xin: "x \<in> set (t_domains R)"
        from row [OF xin] obtain k g where
          m: "(k, g) \<in> set ?top"
          and kx: "td_domain x = fst k" "td_title x = fst (snd k)" "td_category x = snd (snd k)"
          by blast
        from m have "(k, g) \<in> set ?L" by (rule in_set_takeD)
        from grp [OF this] have
          g: "g = filter (\<lambda>r. (ur_user_id r = uid \<and> since \<le> ur_date r) \<and> ur_domain r = fst k \<and>
                 ur_title r = fst (snd k) \<and> ur_category r = snd (snd k)) ?T"
          by blast
        from top_k [OF m [unfolded L] d [unfolded L]]
        have "seconds_of ?g \<le> seconds_of g" by simp
        then show "sum_list (map ur_total_seconds ?g) \<le> sum_list (map ur_total_seconds
               (filter (\<lambda>r. ur_user_id r = uid \<and> since \<le> ur_date r \<and>
                             ur_domain r = td_domain x \<and> ur_title r = td_title x \<and> ur_category r = td_category x)
                  (usage_records s)))"
          unfolding kx g seconds_of_def by (simp add: conj_assoc)
      qed
      then show ?thesis unfolding gr by blast
    qed
  qed
  have per': "t_period R = min (case period of None \<Rightarrow> 7 | Some n \<Rightarrow> if n = 0 then 7 else n) 90"
    using per by (simp add: od)
  have since': "iso_day e (now_ms - t_period R * 86400000) = Some since"
    using since by (simp add: per)
  have len': "length (t_domains R) =
          min (nat (min (case limit of None \<Rightarrow> 20 | Some n \<Rightarrow> if n = 0 then 20 else n) 100))
              (card ((\<lambda>r. (ur_domain r, ur_title r, ur_category r)) `
                       {r \<in> set (usage_records s). ur_user_id r = uid \<and> since \<le> ur_date r}))"
    using len by (simp add: od)
  from since' len' dist rows srt rank show ?thesis
    by (intro conjI exI [of _ since] per')
qed

theorem top_domains_groups_ranked_witness:
  "\<exists>R. top_domains example_env 1705320000000 ''user-1'' (Some 7) (Some 1) two_domains_db = Inr R \<and>
       t_domains R = [\<lparr>td_domain = ''a.com'', td_title = Some ''A'', td_category = Some ''Other'',
                        td_total_seconds = ''500'', td_total_visits = ''5'', td_active_days = ''1''\<rparr>] \<and>
       t_period R = 7 \<and>
       iso_day example_env (1705320000000 - 7 * 86400000) = Some ''2024-01-08'' \<and>
       card ((\<lambda>r. (ur_domain r, ur_title r, ur_category r)) `
               {r \<in> set (usage_records two_domains_db).
                  ur_user_id r = ''user-1'' \<and> ''2024-01-08'' \<le> ur_date r}) = 2 \<and>
       length (t_domains R) = min 1 2"
proof -
  have c: "card ((\<lambda>r. (ur_domain r, ur_title r, ur_category r)) `
               {r \<in> set (usage_records two_domains_db).
                  ur_user_id r = ''user-1'' \<and> ''2024-01-08'' \<le> ur_date r}) = 2"
    unfolding card_keys by code_simp
  let ?R = "\<lparr>t_domains = [\<lparr>td_domain = ''a.com'', td_title = Some ''A'', td_category = Some ''Other'',
                         td_total_seconds = ''500'', td_total_visits = ''5'', td_active_days = ''1''\<rparr>],
          t_period = 7\<rparr>"
  have ev: "top_domains example_env 1705320000000 ''user-1'' (Some 7) (Some 1) two_domains_db = Inr ?R"
    by code_simp
  have day: "iso_day example_env (1705320000000 - 7 * 86400000) = Some ''2024-01-08''"
    by code_simp
  from top_domains_groups_ranked [OF ev] obtain since where
    "iso_day example_env (1705320000000 - t_period ?R * 86400000) = Some since"
    and len: "length (t_domains ?R) =
          min (nat (min (case Some 1 of None \<Rightarrow> 20 | Some n \<Rightarrow> if n = 0 then 20 else n) 100))
              (card ((\<lambda>r. (ur_domain r, ur_title r, ur_category r)) `
                       {r \<in> set (usage_records two_domains_db). ur_user_id r = ''user-1'' \<and> since \<le> ur_date r}))"
    by blast
  then have "since = ''2024-01-08''" using day by simp
  with len have "length (t_domains ?R) = min 1 2"
    unfolding c by simp
  with ev day c show ?thesis by simp
qed

text \<open>
  Claim C9 as stated fails on the code. The device is looked up inside the \<^verbatim>\<open>try\<close> block
  with the device id of the body as a parameter of the query. A device id that holds the
  character U+0000 is no device of the user, and PostgreSQL refuses the parameter: the
  answer is the 500 of the \<^verbatim>\<open>catch\<close> block, not \<open>DeviceNotFound\<close>.
\<close>

theorem push_refused_device_id:
  "push example_env 1000 ''user-1''
     \<lparr>deviceId = Some [CHR 0x00], usageData = Some (report (stats 100 2)), activityEvents = None\<rparr>
     fresh_db = (Inl InternalServerError, fresh_db) \<and>
   find_device [CHR 0x00] ''user-1'' (devices fresh_db) = None"
  by (simp add: push_def select_device_def find_device_def text_param_def fresh_db_def laptop_def)

text \<open>
  Claim C9, amended. A push that names a device which is not a device of the authenticated
  user leaves the database as it found it: no usage record, activity event, sync log entry
  or device has changed. It is answered with \<open>DeviceNotFound\<close>, unless the device id or
  the user id holds the character U+0000, when it is answered with the 500 of the
  \<^verbatim>\<open>catch\<close> block.
\<close>

theorem push_unknown_device:
  assumes "deviceId body = Some did" and "did \<noteq> []"
    and "\<forall>d \<in> set (devices s). \<not> (dev_id d = did \<and> dev_user_id d = uid)"
  shows "push e now uid body s =
           (if CHR 0x00 \<in> set did \<or> CHR 0x00 \<in> set uid
            then Inl InternalServerError else Inl DeviceNotFound, s)"
proof -
  from assms(3) have "find_device did uid (devices s) = None"
    by (simp add: find_device_def find_None_iff2)
  from select_device_missing [OF this] assms(1,2) show ?thesis by (simp add: push_def)
qed

theorem push_unknown_device_witness:
  "push example_env 1000 ''user-2'' (push_of (Some (report (stats 100 2)))) fresh_db =
     (Inl DeviceNotFound, fresh_db)"
proof -
  have "deviceId (push_of (Some (report (stats 100 2)))) = Some ''dev-1''" by (simp add: push_of_def)
  moreover have "''dev-1'' \<noteq> []" by simp
  moreover have "\<forall>d \<in> set (devices fresh_db). \<not> (dev_id d = ''dev-1'' \<and> dev_user_id d = ''user-2'')"
    by (simp add: fresh_db_def laptop_def)
  ultimately have "push example_env 1000 ''user-2'' (push_of (Some (report (stats 100 2)))) fresh_db =
           (if CHR 0x00 \<in> set ''dev-1'' \<or> CHR 0x00 \<in> set ''user-2''
            then Inl InternalServerError else Inl DeviceNotFound, fresh_db)"
    by (rule push_unknown_device)
  then show ?thesis by simp
qed

text \<open>
  Claim C10. A push of a known device with no usage data and no activity events succeeds
  with both counts 0, leaves the usage records and the activity events as they were, sets
  the last sync time of the device to the time of the request, and appends to the sync log
  an entry of type push with 0 records synced.
\<close>

theorem push_without_payload:
  assumes "deviceId body = Some did" and "did \<noteq> []"
    and "find_device did uid (devices s) = Some dev"
    and "usageData body = None" and "activityEvents body = None"
  shows "\<exists>s'. push e now uid body s = (Inr \<lparr>usageRecords = 0, activityEventsSynced = 0\<rparr>, s') \<and>
           usage_records s' = usage_records s \<and> activity_events s' = activity_events s \<and>
           find_device did uid (devices s') = Some (dev\<lparr>dev_last_sync_at := Some now\<rparr>) \<and>
           sync_log s' = sync_log s @
             [\<lparr>sl_user_id = uid, sl_device_id = did, sl_sync_type = ''push'',
               sl_records_synced = 0, sl_synced_at = now\<rparr>]"
proof -
  let ?P = "\<lambda>d. dev_id d = did \<and> dev_user_id d = uid"
  let ?f = "\<lambda>x. if dev_id x = did then x\<lparr>dev_last_sync_at := Some now\<rparr> else x"
  have pres: "\<And>x. ?P (?f x) = ?P x" by simp
  from assms(3) have "dev_id dev = did"
    by (auto simp add: find_device_def find_Some_iff)
  with assms(3) have "find_device did uid (touch_device now did (devices s)) =
      Some (dev\<lparr>dev_last_sync_at := Some now\<rparr>)"
    by (simp add: find_device_def touch_device_def find_map_pres [of ?P ?f, OF pres])
  with assms show ?thesis
    by (simp add: push_def push_device_def upsert_report_def insert_activity_def log_push_def)
qed

theorem push_without_payload_witness:
  "\<exists>s'. push example_env 2000 ''user-1'' (push_of None) pushed_once =
          (Inr \<lparr>usageRecords = 0, activityEventsSynced = 0\<rparr>, s') \<and>
        usage_records s' = usage_records pushed_once \<and>
        activity_events s' = activity_events pushed_once \<and>
        find_device ''dev-1'' ''user-1'' (devices s') = Some (laptop\<lparr>dev_last_sync_at := Some 2000\<rparr>) \<and>
        sync_log s' = sync_log pushed_once @
          [\<lparr>sl_user_id = ''user-1'', sl_device_id = ''dev-1'', sl_sync_type = ''push'',
            sl_records_synced = 0, sl_synced_at = 2000\<rparr>]"
proof -
  have d: "deviceId (push_of None) = Some ''dev-1''" and u: "usageData (push_of None) = None"
    and a: "activityEvents (push_of None) = None"
    by (simp_all add: push_of_def)
  have n: "''dev-1'' \<noteq> []" by simp
  have f: "find_device ''dev-1'' ''user-1'' (devices pushed_once) = Some (laptop\<lparr>dev_last_sync_at := Some 1000\<rparr>)"
    by code_simp
  from push_without_payload [OF d n f u a, of example_env 2000] show ?thesis by simp
qed

end
